theory Spec2Isabelle
  imports Main "HOL-Library.Word" "HOL-Library.Monad_Syntax"
begin

unbundle bit_operations_syntax

section \<open>Bytes and text\<close>

text \<open>
  A byte is an 8-bit word. The text that the services send (status codes, decimal
  numbers) is given as ASCII bytes. C \<open>long\<close> values are modelled as \<open>int\<close>; where the
  source multiplies two of them, the product is brought back into the 64 bits of a
  \<open>long\<close> by \<open>long_of\<close>. \<open>uint32_t\<close> values are 32-bit words and \<open>size_t\<close> values are
  taken modulo \<open>2^64\<close>; both wrap around as in the source.
\<close>

type_synonym byte = "8 word"
type_synonym u32 = "32 word"

definition BLKSZ :: nat where
  "BLKSZ = 128"

text \<open>
  The value of a product of two \<open>long\<close> values. Signed overflow is undefined in C; the
  model gives the value of two's complement arithmetic, which is what the compiled
  multiplication computes. The statements about waiting times assume that the product
  fits, so that they attribute nothing to an overflow.
\<close>

definition long_of :: "int \<Rightarrow> int" where
  "long_of i = sint (word_of_int i :: 64 word)"

definition ascii :: "char \<Rightarrow> byte" where
  "ascii c = of_char c"

definition bytes :: "string \<Rightarrow> byte list" where
  "bytes s = map ascii s"

text \<open>The line feed that ends every text reply.\<close>

definition NL :: byte where
  "NL = 10"

text \<open>Decimal printing, as \<open>snprintf\<close> does for \<open>%u\<close> and for a non-negative \<open>%ld\<close>.\<close>

fun dec_nat :: "nat \<Rightarrow> byte list" where
  "dec_nat n = (if n < 10 then [of_nat (48 + n)] else dec_nat (n div 10) @ [of_nat (48 + n mod 10)])"

definition dec_long :: "int \<Rightarrow> byte list" where
  "dec_long i = (if i < 0 then ascii CHR ''-'' # dec_nat (nat (- i)) else dec_nat (nat i))"

text \<open>
  \<open>memcpy dst off src\<close> is the buffer \<open>dst\<close> after \<open>memcpy(dst + off, src, length src)\<close>.
\<close>

definition memcpy :: "'a list \<Rightarrow> nat \<Rightarrow> 'a list \<Rightarrow> 'a list" where
  "memcpy dst off src = take off dst @ src @ drop (off + length src) dst"

section \<open>The disk service\<close>

text \<open>
  The global state of the disk server: geometry, track-to-track time, the memory-mapped
  image and the arm position. The field \<open>g_log\<close> is a record of the effects that are not
  visible in the state itself (the \<open>nanosleep\<close> calls, the arm updates and the sector
  accesses), in the order in which the code performs them. The field \<open>g_unread\<close> holds
  the bytes that the filesystem worker has sent on its connection and that the disk
  service has not read: the payload of a write that the disk service has rejected.
\<close>

datatype event = Nanosleep int int | ArmSet int | SectorAccess nat

record disk =
  g_cyl :: int
  g_sec :: int
  g_track_us :: int
  g_base :: "byte list"
  g_head_cyl :: int
  g_log :: "event list"
  g_unread :: "byte list"

text \<open>
  \<open>main\<close>: both geometry arguments must be positive; the backing file is resized to
  \<open>total_bytes\<close> bytes (\<open>ftruncate\<close> extends with zero bytes) and mapped; the arm starts
  at cylinder 0. The size \<open>cyl * sec * BLKSZ\<close> is computed in \<open>size_t\<close> and wraps around
  at \<open>2^64\<close>. \<open>ftruncate\<close> refuses a size that is negative as an \<open>off_t\<close> and \<open>mmap\<close>
  refuses the size 0; \<open>main\<close> then exits, which is the result \<open>None\<close>. The arguments
  are the values that \<open>strtol\<close> returns.
\<close>

definition disk_main :: "int \<Rightarrow> int \<Rightarrow> int \<Rightarrow> byte list \<Rightarrow> disk option" where
  "disk_main cyl sec track_us file =
     (if cyl \<le> 0 \<or> sec \<le> 0 then None
      else let total_bytes = (nat cyl * nat sec * BLKSZ) mod 2 ^ 64 in
        if 2 ^ 63 \<le> total_bytes \<or> total_bytes = 0 then None
        else
          Some \<lparr>g_cyl = cyl, g_sec = sec, g_track_us = track_us,
                g_base = take total_bytes file @ replicate (total_bytes - length file) 0,
                g_head_cyl = 0, g_log = [], g_unread = []\<rparr>)"

text \<open>\<open>blk_ptr\<close>: the offset of sector \<open>(c, s)\<close> from the base of the image.\<close>

definition blk_ptr :: "disk \<Rightarrow> int \<Rightarrow> int \<Rightarrow> nat" where
  "blk_ptr dk c s = (nat c * nat (g_sec dk) + nat s) * BLKSZ"

definition validate_cs :: "disk \<Rightarrow> int \<Rightarrow> int \<Rightarrow> bool" where
  "validate_cs dk c s \<longleftrightarrow> c \<ge> 0 \<and> c < g_cyl dk \<and> s \<ge> 0 \<and> s < g_sec dk"

definition sleep_tracks :: "disk \<Rightarrow> int \<Rightarrow> int \<Rightarrow> disk" where
  "sleep_tracks dk from to =
     (let delta = \<bar>to - from\<bar>;
          total_us = long_of (delta * g_track_us dk)
      in if total_us \<le> 0 then dk
         else dk\<lparr>g_log := g_log dk @ [Nanosleep (total_us div 1000000) ((total_us mod 1000000) * 1000)]\<rparr>)"

text \<open>
  The handlers return the C return value, the bytes sent to the client and the new
  state. Sending to the client is assumed to succeed.
\<close>

definition handle_I :: "disk \<Rightarrow> int \<times> byte list \<times> disk" where
  "handle_I dk = (0, dec_long (g_cyl dk) @ bytes '' '' @ dec_long (g_sec dk) @ [NL], dk)"

definition handle_R :: "disk \<Rightarrow> int \<Rightarrow> int \<Rightarrow> int \<times> byte list \<times> disk" where
  "handle_R dk c s =
     (if \<not> validate_cs dk c s then (0, [ascii CHR ''0''], dk)
      else let from = g_head_cyl dk;
               dk1 = sleep_tracks dk from c;
               dk2 = dk1\<lparr>g_head_cyl := c, g_log := g_log dk1 @ [ArmSet c]\<rparr>;
               p = blk_ptr dk2 c s;
               dk3 = dk2\<lparr>g_log := g_log dk2 @ [SectorAccess p]\<rparr>
           in (0, ascii CHR ''1'' # take BLKSZ (drop p (g_base dk3)), dk3))"

text \<open>
  \<open>handle_W\<close> also takes the bytes that the client has sent after the command line and
  returns those it has not read. A client that closes the connection before \<open>l\<close> bytes
  have arrived makes \<open>read_exact\<close> return 0 and the handler \<open>-1\<close>.
\<close>

definition handle_W :: "disk \<Rightarrow> byte list \<Rightarrow> int \<Rightarrow> int \<Rightarrow> int \<Rightarrow> int \<times> byte list \<times> byte list \<times> disk" where
  "handle_W dk inp c s l =
     (if \<not> validate_cs dk c s \<or> l < 0 \<or> l > int BLKSZ then (0, [ascii CHR ''0''], inp, dk)
      else if l > 0 \<and> length inp < nat l then (- 1, [], [], dk)
      else let buf = take (nat l) inp @ replicate (BLKSZ - nat l) 0;
               rest = drop (nat l) inp;
               from = g_head_cyl dk;
               dk1 = sleep_tracks dk from c;
               dk2 = dk1\<lparr>g_head_cyl := c, g_log := g_log dk1 @ [ArmSet c]\<rparr>;
               p = blk_ptr dk2 c s;
               dk3 = dk2\<lparr>g_base := memcpy (g_base dk2) p buf,
                         g_log := g_log dk2 @ [SectorAccess p]\<rparr>
           in (0, [ascii CHR ''1''], rest, dk3))"



text \<open>
  The image has the size of the geometry and the arm is on a cylinder of the disk.
\<close>

definition disk_ok :: "disk \<Rightarrow> bool" where
  "disk_ok dk \<longleftrightarrow> 0 < g_cyl dk \<and> 0 < g_sec dk
     \<and> length (g_base dk) = nat (g_cyl dk) * nat (g_sec dk) * BLKSZ
     \<and> 0 \<le> g_head_cyl dk \<and> g_head_cyl dk < g_cyl dk"


section \<open>The filesystem service\<close>

subsection \<open>The connection to the disk\<close>

text \<open>
  Every filesystem worker has its own connection to the disk service and keeps the
  geometry that the disk reported. A request on that connection is served by the
  handler of the disk service; the transport is assumed to be reliable. The division
  in \<open>idx_to_cs\<close> is a 32-bit unsigned one; with \<open>(uint32_t)sec = 0\<close> the source traps,
  and every theorem below excludes that geometry.

  The model follows one worker at a time. A write that the disk service rejects leaves
  its 128 payload bytes unread on the connection (\<open>g_unread\<close>): the connection is out of
  step from then on. What the disk service makes of a later request on such a
  connection depends on those bytes (it may skip them as a blank line and then wait
  for a line feed that never comes, while the worker waits for the reply), so that
  case is outside the model: the request is not served and gets the failure value.
  Every theorem below that involves a request to the disk assumes a connection without
  unread bytes.
\<close>

record disk_t =
  d_cyl :: int
  d_sec :: int

definition total_blocks_of :: "disk_t \<Rightarrow> u32" where
  "total_blocks_of d = word_of_int (d_cyl d * d_sec d)"

definition idx_to_cs :: "disk_t \<Rightarrow> u32 \<Rightarrow> int \<times> int" where
  "idx_to_cs d idx = (uint (idx div word_of_int (d_sec d)), uint (idx mod word_of_int (d_sec d)))"

text \<open>\<open>None\<close> and \<open>False\<close> stand for the return value \<open>-1\<close>.\<close>

definition disk_read_idx :: "disk_t \<Rightarrow> disk \<Rightarrow> u32 \<Rightarrow> byte list option \<times> disk" where
  "disk_read_idx d dk idx =
     (if g_unread dk \<noteq> [] then (None, dk)
      else
       case idx_to_cs d idx of (c, s) \<Rightarrow>
       case handle_R dk c s of (rv, reply, dk') \<Rightarrow>
         if reply \<noteq> [] \<and> hd reply = ascii CHR ''1'' \<and> length (tl reply) = BLKSZ
         then (Some (tl reply), dk') else (None, dk'))"

definition disk_write_idx :: "disk_t \<Rightarrow> disk \<Rightarrow> u32 \<Rightarrow> byte list \<Rightarrow> bool \<times> disk" where
  "disk_write_idx d dk idx blk =
     (if g_unread dk \<noteq> [] then (False, dk)
      else
       case idx_to_cs d idx of (c, s) \<Rightarrow>
       case handle_W dk blk c s (int BLKSZ) of (rv, reply, rest, dk') \<Rightarrow>
         (reply = [ascii CHR ''1''], dk'\<lparr>g_unread := rest\<rparr>))"

subsection \<open>On-disk layout\<close>

definition FAT_FREE :: u32 where
  "FAT_FREE = 0x00000000"

definition FAT_EOF :: u32 where
  "FAT_EOF = 0xffffffff"

definition FAT_RESERVED :: u32 where
  "FAT_RESERVED = 0xfffffffe"

definition MAX_NAME :: nat where
  "MAX_NAME = 32"

record layout_t =
  total_blocks :: u32
  fat_start :: u32
  fat_sectors :: u32
  dir_start :: u32
  dir_sectors :: u32
  dir_entries :: u32

record dirent_fs =
  e_name :: "byte list"
  e_length :: u32
  e_first :: u32
  e_used :: byte

text \<open>Integers are stored in little-endian byte order.\<close>

definition le32 :: "u32 \<Rightarrow> byte list" where
  "le32 w = [ucast w, ucast (drop_bit 8 w), ucast (drop_bit 16 w), ucast (drop_bit 24 w)]"

definition rd32 :: "byte list \<Rightarrow> nat \<Rightarrow> u32" where
  "rd32 bs off = ucast (bs ! off) OR push_bit 8 (ucast (bs ! (off + 1)))
     OR push_bit 16 (ucast (bs ! (off + 2))) OR push_bit 24 (ucast (bs ! (off + 3)))"

definition le64 :: "64 word \<Rightarrow> byte list" where
  "le64 w = map (\<lambda>k. ucast (drop_bit (8 * k) w)) [0..<8]"

definition dirent_pack :: "dirent_fs \<Rightarrow> byte list" where
  "dirent_pack e =
     (memcpy (memcpy (memcpy (replicate 64 0) 0 (e_name e)) 32 (le32 (e_length e)))
        36 (le32 (e_first e)))[40 := e_used e]"

definition dirent_unpack :: "byte list \<Rightarrow> dirent_fs" where
  "dirent_unpack src = \<lparr>e_name = (take MAX_NAME src)[MAX_NAME - 1 := 0],
     e_length = rd32 src 32, e_first = rd32 src 36, e_used = src ! 40\<rparr>"

definition super_pack :: "disk_t \<Rightarrow> layout_t \<Rightarrow> byte list" where
  "super_pack d L =
     bytes ''CSFS1'' @ replicate 11 0
     @ le64 (word_of_int (d_cyl d)) @ le64 (word_of_int (d_sec d)) @ replicate 8 0
     @ le32 (total_blocks L) @ le32 (fat_start L) @ le32 (fat_sectors L)
     @ le32 (dir_start L) @ le32 (dir_sectors L) @ le32 (dir_entries L)
     @ replicate 64 0"

text \<open>
  \<open>super_load\<close> accepts a sector that starts with the tag and takes the geometry and
  the layout from it.
\<close>

definition rd64 :: "byte list \<Rightarrow> nat \<Rightarrow> 64 word" where
  "rd64 bs off = horner_sum ucast (2 ^ 8) (take 8 (drop off bs))"

definition super_load :: "byte list \<Rightarrow> (disk_t \<times> layout_t) option" where
  "super_load blk =
     (if take 5 blk \<noteq> bytes ''CSFS1'' then None
      else Some (\<lparr>d_cyl = sint (rd64 blk 16), d_sec = sint (rd64 blk 24)\<rparr>,
                 \<lparr>total_blocks = rd32 blk 40, fat_start = rd32 blk 44, fat_sectors = rd32 blk 48,
                  dir_start = rd32 blk 52, dir_sectors = rd32 blk 56, dir_entries = rd32 blk 60\<rparr>))"

text \<open>
  The string that a \<open>char\<close> array holds ends before its first NUL byte;
  \<open>strncmp_eq a b n\<close> is \<open>strncmp(a, b, n) == 0\<close>.
\<close>

definition cstr :: "byte list \<Rightarrow> byte list" where
  "cstr xs = takeWhile (\<lambda>c. c \<noteq> 0) xs"

definition strlen :: "byte list \<Rightarrow> nat" where
  "strlen xs = length (cstr xs)"

definition strncmp_eq :: "byte list \<Rightarrow> byte list \<Rightarrow> nat \<Rightarrow> bool" where
  "strncmp_eq a b n \<longleftrightarrow> take n (cstr a) = take n (cstr b)"

subsection \<open>FAT cache\<close>

record fat_cache_t =
  fat_v :: "u32 list"
  fat_loaded :: bool

definition fat_init :: fat_cache_t where
  "fat_init = \<lparr>fat_v = [], fat_loaded = False\<rparr>"

fun fat_load_entries :: "byte list \<Rightarrow> nat \<Rightarrow> nat list \<Rightarrow> u32 list \<Rightarrow> nat \<Rightarrow> u32 list \<times> nat" where
  "fat_load_entries blk tb [] v idx = (v, idx)"
| "fat_load_entries blk tb (i # is) v idx =
     (if idx < tb then fat_load_entries blk tb is (v[idx := rd32 blk (i * 4)]) (Suc idx)
      else (v, idx))"

fun fat_load_sectors :: "disk_t \<Rightarrow> layout_t \<Rightarrow> nat list \<Rightarrow> disk \<Rightarrow> u32 list \<Rightarrow> nat \<Rightarrow> bool \<times> disk \<times> u32 list" where
  "fat_load_sectors d L [] dk v idx = (True, dk, v)"
| "fat_load_sectors d L (s # ss) dk v idx =
     (case disk_read_idx d dk (fat_start L + of_nat s) of
        (None, dk') \<Rightarrow> (False, dk', v)
      | (Some blk, dk') \<Rightarrow>
          (case fat_load_entries blk (unat (total_blocks L)) [0..<BLKSZ div 4] v idx of
             (v', idx') \<Rightarrow> fat_load_sectors d L ss dk' v' idx'))"

text \<open>\<open>calloc\<close> is assumed to succeed.\<close>

definition fat_load :: "disk_t \<Rightarrow> layout_t \<Rightarrow> disk \<Rightarrow> fat_cache_t \<Rightarrow> bool \<times> disk \<times> fat_cache_t" where
  "fat_load d L dk fc =
     (if fat_loaded fc then (True, dk, fc)
      else case fat_load_sectors d L [0..<unat (fat_sectors L)] dk
                  (replicate (unat (total_blocks L)) 0) 0 of
             (ok, dk', v) \<Rightarrow> (ok, dk', \<lparr>fat_v = v, fat_loaded = ok\<rparr>))"

fun fat_flush_entries :: "nat \<Rightarrow> nat list \<Rightarrow> u32 list \<Rightarrow> byte list \<Rightarrow> nat \<Rightarrow> byte list \<times> nat" where
  "fat_flush_entries tb [] v blk idx = (blk, idx)"
| "fat_flush_entries tb (i # is) v blk idx =
     (if idx < tb then fat_flush_entries tb is v (memcpy blk (i * 4) (le32 (v ! idx))) (Suc idx)
      else (blk, idx))"

fun fat_flush_sectors :: "disk_t \<Rightarrow> layout_t \<Rightarrow> nat list \<Rightarrow> disk \<Rightarrow> u32 list \<Rightarrow> nat \<Rightarrow> bool \<times> disk" where
  "fat_flush_sectors d L [] dk v idx = (True, dk)"
| "fat_flush_sectors d L (s # ss) dk v idx =
     (case fat_flush_entries (unat (total_blocks L)) [0..<BLKSZ div 4] v (replicate BLKSZ 0) idx of
        (blk, idx') \<Rightarrow>
          (case disk_write_idx d dk (fat_start L + of_nat s) blk of
             (False, dk') \<Rightarrow> (False, dk')
           | (True, dk') \<Rightarrow> fat_flush_sectors d L ss dk' v idx'))"

definition fat_flush :: "disk_t \<Rightarrow> layout_t \<Rightarrow> disk \<Rightarrow> fat_cache_t \<Rightarrow> bool \<times> disk" where
  "fat_flush d L dk fc =
     (if \<not> fat_loaded fc then (True, dk)
      else fat_flush_sectors d L [0..<unat (fat_sectors L)] dk (fat_v fc) 0)"

definition fat_get :: "fat_cache_t \<Rightarrow> u32 \<Rightarrow> u32" where
  "fat_get fc i = fat_v fc ! unat i"

definition fat_set :: "fat_cache_t \<Rightarrow> u32 \<Rightarrow> u32 \<Rightarrow> fat_cache_t" where
  "fat_set fc i x = fc\<lparr>fat_v := (fat_v fc)[unat i := x]\<rparr>"

subsection \<open>Directory helpers\<close>

datatype 'a found = Found 'a | NotFound | IOFail

definition dir_read_entry :: "disk_t \<Rightarrow> layout_t \<Rightarrow> disk \<Rightarrow> nat \<Rightarrow> dirent_fs option \<times> disk" where
  "dir_read_entry d L dk slot =
     (let per_sector = BLKSZ div 64;
          sec = dir_start L + of_nat (slot div per_sector);
          offs = (slot mod per_sector) * 64
      in case disk_read_idx d dk sec of
           (None, dk') \<Rightarrow> (None, dk')
         | (Some blk, dk') \<Rightarrow> (Some (dirent_unpack (drop offs blk)), dk'))"

definition dir_write_entry :: "disk_t \<Rightarrow> layout_t \<Rightarrow> disk \<Rightarrow> nat \<Rightarrow> dirent_fs \<Rightarrow> bool \<times> disk" where
  "dir_write_entry d L dk slot e =
     (let per_sector = BLKSZ div 64;
          sec = dir_start L + of_nat (slot div per_sector);
          offs = (slot mod per_sector) * 64
      in case disk_read_idx d dk sec of
           (None, dk') \<Rightarrow> (False, dk')
         | (Some blk, dk') \<Rightarrow> disk_write_idx d dk' sec (memcpy blk offs (dirent_pack e)))"

fun dir_find_by_name_loop :: "disk_t \<Rightarrow> layout_t \<Rightarrow> byte list \<Rightarrow> nat list \<Rightarrow> disk \<Rightarrow> (nat \<times> dirent_fs) found \<times> disk" where
  "dir_find_by_name_loop d L name [] dk = (NotFound, dk)"
| "dir_find_by_name_loop d L name (i # is) dk =
     (case dir_read_entry d L dk i of
        (None, dk') \<Rightarrow> (IOFail, dk')
      | (Some ent, dk') \<Rightarrow>
          if e_used ent \<noteq> 0 \<and> strncmp_eq (e_name ent) name MAX_NAME then (Found (i, ent), dk')
          else dir_find_by_name_loop d L name is dk')"

definition dir_find_by_name :: "disk_t \<Rightarrow> layout_t \<Rightarrow> disk \<Rightarrow> byte list \<Rightarrow> (nat \<times> dirent_fs) found \<times> disk" where
  "dir_find_by_name d L dk name = dir_find_by_name_loop d L name [0..<unat (dir_entries L)] dk"

fun dir_find_free_loop :: "disk_t \<Rightarrow> layout_t \<Rightarrow> nat list \<Rightarrow> disk \<Rightarrow> nat found \<times> disk" where
  "dir_find_free_loop d L [] dk = (NotFound, dk)"
| "dir_find_free_loop d L (i # is) dk =
     (case dir_read_entry d L dk i of
        (None, dk') \<Rightarrow> (IOFail, dk')
      | (Some e, dk') \<Rightarrow> if e_used e = 0 then (Found i, dk') else dir_find_free_loop d L is dk')"

definition dir_find_free :: "disk_t \<Rightarrow> layout_t \<Rightarrow> disk \<Rightarrow> nat found \<times> disk" where
  "dir_find_free d L dk = dir_find_free_loop d L [0..<unat (dir_entries L)] dk"

subsection \<open>Allocation\<close>

fun find_free_block_loop :: "u32 list \<Rightarrow> nat list \<Rightarrow> nat option" where
  "find_free_block_loop v [] = None"
| "find_free_block_loop v (i # is) = (if v ! i = FAT_FREE then Some i else find_free_block_loop v is)"

definition find_free_block :: "layout_t \<Rightarrow> fat_cache_t \<Rightarrow> u32 \<Rightarrow> u32 option" where
  "find_free_block L fc start_idx =
     map_option of_nat (find_free_block_loop (fat_v fc) [unat start_idx..<unat (total_blocks L)])"

text \<open>
  The walk of \<open>free_chain\<close> is not bounded by the source. \<open>None\<close> stands for a call with
  no result: the walk leaves the array (undefined behaviour in the source) or never
  reaches the end marker.
\<close>

partial_function (option) free_chain :: "fat_cache_t \<Rightarrow> u32 \<Rightarrow> fat_cache_t option" where
  "free_chain fc cur =
     (if cur = FAT_EOF then Some fc
      else if length (fat_v fc) \<le> unat cur then None
      else let nxt = fat_get fc cur;
               fc' = fat_set fc cur FAT_FREE
           in if nxt = FAT_EOF then Some fc' else free_chain fc' nxt)"

declare free_chain.simps [code]

subsection \<open>Formatting\<close>

definition compute_layout :: "disk_t \<Rightarrow> layout_t" where
  "compute_layout d =
     (let tb = total_blocks_of d;
          fat_bytes = tb * 4;
          fat_secs = (fat_bytes + of_nat BLKSZ - 1) div of_nat BLKSZ
      in \<lparr>total_blocks = tb, fat_start = 1, fat_sectors = fat_secs,
          dir_start = 1 + fat_secs, dir_sectors = 32, dir_entries = 64\<rparr>)"

fun write_zero_sectors :: "disk_t \<Rightarrow> u32 \<Rightarrow> nat list \<Rightarrow> disk \<Rightarrow> bool \<times> disk" where
  "write_zero_sectors d start [] dk = (True, dk)"
| "write_zero_sectors d start (s # ss) dk =
     (case disk_write_idx d dk (start + of_nat s) (replicate BLKSZ 0) of
        (False, dk') \<Rightarrow> (False, dk')
      | (True, dk') \<Rightarrow> write_zero_sectors d start ss dk')"

fun reserve_meta :: "nat \<Rightarrow> nat \<Rightarrow> nat list \<Rightarrow> fat_cache_t \<Rightarrow> fat_cache_t" where
  "reserve_meta meta_end tb [] fc = fc"
| "reserve_meta meta_end tb (i # is) fc =
     (if i \<le> meta_end \<and> i < tb then reserve_meta meta_end tb is (fat_set fc (of_nat i) FAT_RESERVED)
      else fc)"

definition format_fs :: "disk_t \<Rightarrow> disk \<Rightarrow> fat_cache_t \<Rightarrow> bool \<times> disk \<times> layout_t \<times> fat_cache_t" where
  "format_fs d dk fc =
     (let L = compute_layout d in
      case disk_write_idx d dk 0 (super_pack d L) of
        (False, dk1) \<Rightarrow> (False, dk1, L, fc)
      | (True, dk1) \<Rightarrow>
      (case write_zero_sectors d (fat_start L) [0..<unat (fat_sectors L)] dk1 of
        (False, dk2) \<Rightarrow> (False, dk2, L, fc)
      | (True, dk2) \<Rightarrow>
      (case fat_load d L dk2 fc of
        (False, dk3, fc1) \<Rightarrow> (False, dk3, L, fc1)
      | (True, dk3, fc1) \<Rightarrow>
         let meta_end = dir_start L + dir_sectors L - 1;
             fc2 = reserve_meta (unat meta_end) (unat (total_blocks L)) [0..<unat (total_blocks L)] fc1
         in (case fat_flush d L dk3 fc2 of
               (False, dk4) \<Rightarrow> (False, dk4, L, fc2)
             | (True, dk4) \<Rightarrow>
                 (case write_zero_sectors d (dir_start L) [0..<unat (dir_sectors L)] dk4 of
                    (ok, dk5) \<Rightarrow> (ok, dk5, L, fc2))))))"

subsection \<open>Reading and writing files\<close>

function read_blocks :: "disk_t \<Rightarrow> fat_cache_t \<Rightarrow> disk \<Rightarrow> u32 \<Rightarrow> nat \<Rightarrow> nat \<Rightarrow> byte list \<Rightarrow> bool \<times> disk \<times> byte list" where
  "read_blocks d fc dk cur left pos out =
     (if left > 0 \<and> cur \<noteq> FAT_EOF then
        (case disk_read_idx d dk cur of
           (None, dk') \<Rightarrow> (False, dk', out)
         | (Some blk, dk') \<Rightarrow>
             read_blocks d fc dk' (fat_get fc cur)
               (left - (if left < BLKSZ then left else BLKSZ))
               (pos + (if left < BLKSZ then left else BLKSZ))
               (memcpy out pos (take (if left < BLKSZ then left else BLKSZ) blk)))
      else (True, dk, out))"
  by pat_completeness auto
termination
  by (relation "measure (\<lambda>(d, fc, dk, cur, left, pos, out). left)") (auto simp: BLKSZ_def)

declare read_blocks.simps [simp del]

text \<open>
  The buffer that \<open>read_whole_file\<close> allocates is not initialised; \<open>junk\<close> gives the
  bytes that it holds at first.
\<close>

definition read_whole_file :: "disk_t \<Rightarrow> layout_t \<Rightarrow> disk \<Rightarrow> fat_cache_t \<Rightarrow> dirent_fs \<Rightarrow> (nat \<Rightarrow> byte) \<Rightarrow> byte list option \<times> disk" where
  "read_whole_file d L dk fc ent junk =
     (case read_blocks d fc dk (e_first ent) (unat (e_length ent)) 0
             (map junk [0..<unat (e_length ent)]) of
        (False, dk', out) \<Rightarrow> (None, dk')
      | (True, dk', out) \<Rightarrow> (Some out, dk'))"

fun alloc_blocks :: "layout_t \<Rightarrow> u32 \<Rightarrow> nat \<Rightarrow> fat_cache_t \<Rightarrow> u32 \<Rightarrow> u32 \<Rightarrow> bool \<times> fat_cache_t \<times> u32 \<times> u32" where
  "alloc_blocks L data_start 0 fc head prev = (True, fc, head, prev)"
| "alloc_blocks L data_start (Suc k) fc head prev =
     (case find_free_block L fc data_start of
        None \<Rightarrow> (False, fc, head, prev)
      | Some b \<Rightarrow>
          let fc1 = fat_set fc b FAT_EOF;
              fc2 = (if prev \<noteq> FAT_EOF then fat_set fc1 prev b else fc1);
              head' = (if prev \<noteq> FAT_EOF then head else b)
          in alloc_blocks L data_start k fc2 head' b)"

text \<open>
  The loop that writes the data blocks. As for \<open>free_chain\<close>, the source gives no bound
  that holds for every argument, and \<open>None\<close> stands for a loop that does not end.
\<close>

partial_function (option) write_blocks :: "disk_t \<Rightarrow> fat_cache_t \<Rightarrow> byte list \<Rightarrow> nat \<Rightarrow> disk \<Rightarrow> u32 \<Rightarrow> nat \<Rightarrow> nat \<Rightarrow> (bool \<times> disk) option" where
  "write_blocks d fc data len dk cur left pos =
     (if cur \<noteq> FAT_EOF then
        (let tk = (if left < BLKSZ then left else BLKSZ);
             blk = memcpy (replicate BLKSZ 0) 0 (take tk (drop pos data))
         in case disk_write_idx d dk cur blk of
              (ok, dk') \<Rightarrow>
                if \<not> ok then Some (False, dk')
                else
                  let pos' = pos + tk;
                      left' = (if left > tk then left - tk else 0);
                      nxt = fat_get fc cur
                  in write_blocks d fc data len dk'
                       (if nxt = FAT_EOF \<or> pos' \<ge> len then FAT_EOF else nxt) left' pos')
      else Some (True, dk))"

declare write_blocks.simps [code]

text \<open>The return value is 0, \<open>-1\<close> (disk error) or \<open>-2\<close> (no space).\<close>

definition write_whole_file :: "disk_t \<Rightarrow> layout_t \<Rightarrow> disk \<Rightarrow> fat_cache_t \<Rightarrow> dirent_fs \<Rightarrow> byte list \<Rightarrow> u32 \<Rightarrow> (int \<times> disk \<times> fat_cache_t \<times> dirent_fs) option" where
  "write_whole_file d L dk fc ent data len =
     do {
       fc1 \<leftarrow> (if e_used ent \<noteq> 0 \<and> e_first ent \<noteq> FAT_EOF then free_chain fc (e_first ent)
               else Some fc);
       let ent1 = ent\<lparr>e_first := FAT_EOF, e_length := len\<rparr>;
       if len = 0 then Some (0, dk, fc1, ent1)
       else
         let blocks = (len + of_nat BLKSZ - 1) div of_nat BLKSZ;
             data_start = dir_start L + dir_sectors L
         in case alloc_blocks L data_start (unat blocks) fc1 FAT_EOF FAT_EOF of
              (False, fc2, head, prev) \<Rightarrow> Some (- 2, dk, fc2, ent1)
            | (True, fc2, head, prev) \<Rightarrow>
                do {
                  (ok, dk') \<leftarrow> write_blocks d fc2 data (unat len) dk head (unat len) 0;
                  Some (if ok then 0 else - 1, dk', fc2, ent1\<lparr>e_first := head\<rparr>)
                }
     }"

subsection \<open>Server state and command handlers\<close>

record server_state_t =
  G_L :: layout_t
  G_fat :: fat_cache_t
  G_formatted :: bool

text \<open>The state that \<open>main\<close> of the filesystem server sets up.\<close>

definition fs_main :: "layout_t \<Rightarrow> server_state_t" where
  "fs_main L0 = \<lparr>G_L = L0, G_fat = fat_init, G_formatted = False\<rparr>"

text \<open>
  The start of a worker (\<open>client_main\<close>): it opens a connection of its own to the disk
  service, which holds no unread bytes, asks for the geometry (the two numbers of the
  reply to \<open>I\<close>, which the worker parses), and adopts the superblock if sector 0 holds
  one: the layout is taken from it and the filesystem is marked formatted.
\<close>

definition disk_connect :: "disk \<Rightarrow> disk_t \<times> disk" where
  "disk_connect dk =
     (case handle_I dk of (rv, out, dk') \<Rightarrow>
        (\<lparr>d_cyl = g_cyl dk', d_sec = g_sec dk'\<rparr>, dk'\<lparr>g_unread := []\<rparr>))"

definition try_load_super :: "disk_t \<Rightarrow> disk \<Rightarrow> (disk_t \<times> layout_t) option \<times> disk" where
  "try_load_super d dk =
     (case disk_read_idx d dk 0 of
        (None, dk') \<Rightarrow> (None, dk')
      | (Some blk, dk') \<Rightarrow> (super_load blk, dk'))"

definition client_start :: "disk \<Rightarrow> server_state_t \<Rightarrow> disk_t \<times> disk \<times> server_state_t" where
  "client_start dk G =
     (case disk_connect dk of (d, dk0) \<Rightarrow>
      case try_load_super d dk0 of
        (Some (d', L), dk1) \<Rightarrow> (d', dk1, G\<lparr>G_L := L, G_formatted := True\<rparr>)
      | (None, dk1) \<Rightarrow> (d, dk1, G))"

definition reply :: "string \<Rightarrow> byte list" where
  "reply code = bytes code @ [NL]"

definition cmd_format :: "disk_t \<Rightarrow> disk \<Rightarrow> server_state_t \<Rightarrow> byte list \<times> disk \<times> server_state_t" where
  "cmd_format d dk G =
     (case format_fs d dk fat_init of
        (ok, dk', L, fc) \<Rightarrow>
          (reply (if ok then ''0'' else ''2''), dk',
           \<lparr>G_L = L, G_fat = fc, G_formatted = (if ok then True else G_formatted G)\<rparr>))"

definition cmd_create :: "disk_t \<Rightarrow> disk \<Rightarrow> server_state_t \<Rightarrow> byte list \<Rightarrow> byte list \<times> disk \<times> server_state_t" where
  "cmd_create d dk G name =
     (if strlen name = 0 \<or> strlen name \<ge> MAX_NAME then (reply ''2'', dk, G)
      else if \<not> G_formatted G then (reply ''2'', dk, G)
      else case fat_load d (G_L G) dk (G_fat G) of
        (False, dk1, fc) \<Rightarrow> (reply ''2'', dk1, G\<lparr>G_fat := fc\<rparr>)
      | (True, dk1, fc) \<Rightarrow>
      (case dir_find_by_name d (G_L G) dk1 name of
        (Found x, dk2) \<Rightarrow> (reply ''1'', dk2, G\<lparr>G_fat := fc\<rparr>)
      | (_, dk2) \<Rightarrow>
      (case dir_find_free d (G_L G) dk2 of
        (Found free_slot, dk3) \<Rightarrow>
          let e = \<lparr>e_name = memcpy (replicate MAX_NAME 0) 0 (take (MAX_NAME - 1) (cstr name)),
                   e_length = 0, e_first = FAT_EOF, e_used = 1\<rparr>
          in (case dir_write_entry d (G_L G) dk3 free_slot e of
                (ok, dk4) \<Rightarrow> (reply (if ok then ''0'' else ''2''), dk4, G\<lparr>G_fat := fc\<rparr>))
      | (_, dk3) \<Rightarrow> (reply ''2'', dk3, G\<lparr>G_fat := fc\<rparr>))))"

definition blank :: dirent_fs where
  "blank = \<lparr>e_name = replicate MAX_NAME 0, e_length = 0, e_first = 0, e_used = 0\<rparr>"

definition cmd_delete :: "disk_t \<Rightarrow> disk \<Rightarrow> server_state_t \<Rightarrow> byte list \<Rightarrow> (byte list \<times> disk \<times> server_state_t) option" where
  "cmd_delete d dk G name =
     (if \<not> G_formatted G then Some (reply ''2'', dk, G)
      else case fat_load d (G_L G) dk (G_fat G) of
        (False, dk1, fc) \<Rightarrow> Some (reply ''2'', dk1, G\<lparr>G_fat := fc\<rparr>)
      | (True, dk1, fc) \<Rightarrow>
      (case dir_find_by_name d (G_L G) dk1 name of
        (Found (slot, e), dk2) \<Rightarrow>
          do {
            fc1 \<leftarrow> (if e_first e \<noteq> FAT_EOF then free_chain fc (e_first e) else Some fc);
            case fat_flush d (G_L G) dk2 fc1 of
              (False, dk3) \<Rightarrow> Some (reply ''2'', dk3, G\<lparr>G_fat := fc1\<rparr>)
            | (True, dk3) \<Rightarrow>
                (case dir_write_entry d (G_L G) dk3 slot blank of
                   (ok, dk4) \<Rightarrow> Some (reply (if ok then ''0'' else ''2''), dk4, G\<lparr>G_fat := fc1\<rparr>))
          }
      | (_, dk2) \<Rightarrow> Some (reply ''1'', dk2, G\<lparr>G_fat := fc\<rparr>)))"

definition cmd_read :: "disk_t \<Rightarrow> disk \<Rightarrow> server_state_t \<Rightarrow> byte list \<Rightarrow> (nat \<Rightarrow> byte) \<Rightarrow> byte list \<times> disk \<times> server_state_t" where
  "cmd_read d dk G name junk =
     (if \<not> G_formatted G then (reply ''1 0 '', dk, G)
      else case fat_load d (G_L G) dk (G_fat G) of
        (False, dk1, fc) \<Rightarrow> (reply ''2 0 '', dk1, G\<lparr>G_fat := fc\<rparr>)
      | (True, dk1, fc) \<Rightarrow>
      (case dir_find_by_name d (G_L G) dk1 name of
        (Found (slot, e), dk2) \<Rightarrow>
          (case read_whole_file d (G_L G) dk2 fc e junk of
             (None, dk3) \<Rightarrow> (reply ''2 0 '', dk3, G\<lparr>G_fat := fc\<rparr>)
           | (Some buf, dk3) \<Rightarrow>
               (bytes ''0 '' @ dec_nat (unat (e_length e)) @ bytes '' '' @ buf @ [NL], dk3,
                G\<lparr>G_fat := fc\<rparr>))
      | (_, dk2) \<Rightarrow> (reply ''1 0 '', dk2, G\<lparr>G_fat := fc\<rparr>)))"

text \<open>
  \<open>cmd_write\<close> first reads \<open>len\<close> bytes from the client. It returns the C return value,
  the reply, the bytes of the client not yet read and the new state. \<open>malloc\<close> is
  assumed to succeed.
\<close>

definition cmd_write :: "disk_t \<Rightarrow> disk \<Rightarrow> server_state_t \<Rightarrow> byte list \<Rightarrow> u32 \<Rightarrow> byte list \<Rightarrow> (int \<times> byte list \<times> byte list \<times> disk \<times> server_state_t) option" where
  "cmd_write d dk G name len inp =
     (if len > 0 \<and> length inp < unat len then Some (- 1, [], [], dk, G)
      else
        let data = take (unat len) inp;
            rest = drop (unat len) inp
        in if \<not> G_formatted G then Some (0, reply ''2'', rest, dk, G)
      else case fat_load d (G_L G) dk (G_fat G) of
        (False, dk1, fc) \<Rightarrow> Some (0, reply ''2'', rest, dk1, G\<lparr>G_fat := fc\<rparr>)
      | (True, dk1, fc) \<Rightarrow>
      (case dir_find_by_name d (G_L G) dk1 name of
        (Found (slot, e), dk2) \<Rightarrow>
          do {
            (rv, dk3, fc1, e1) \<leftarrow> write_whole_file d (G_L G) dk2 fc e data len;
            if rv < 0 then Some (0, reply ''2'', rest, dk3, G\<lparr>G_fat := fc1\<rparr>)
            else case fat_flush d (G_L G) dk3 fc1 of
              (False, dk4) \<Rightarrow> Some (0, reply ''2'', rest, dk4, G\<lparr>G_fat := fc1\<rparr>)
            | (True, dk4) \<Rightarrow>
                (case dir_write_entry d (G_L G) dk4 slot e1 of
                   (ok, dk5) \<Rightarrow> Some (0, reply (if ok then ''0'' else ''2''), rest, dk5, G\<lparr>G_fat := fc1\<rparr>))
          }
      | (_, dk2) \<Rightarrow> Some (0, reply ''1'', rest, dk2, G\<lparr>G_fat := fc\<rparr>)))"

section \<open>Notions used in the statements\<close>

text \<open>
  \<open>seek dk c p\<close> is the state of the disk after the arm has moved to cylinder \<open>c\<close> and
  the sector at offset \<open>p\<close> has been accessed.
\<close>

definition seek :: "disk \<Rightarrow> int \<Rightarrow> nat \<Rightarrow> disk" where
  "seek dk c p = (sleep_tracks dk (g_head_cyl dk) c)
     \<lparr>g_head_cyl := c, g_log := g_log (sleep_tracks dk (g_head_cyl dk) c) @ [ArmSet c, SectorAccess p]\<rparr>"

text \<open>
  The filesystem sees the disk as an array of sectors. \<open>img_ok\<close> says that the
  geometry held by a filesystem worker is the one of the disk, that the image has the
  size of the geometry and that block indices fit into 32 bits. \<open>geom_ok\<close> says in
  addition that the connection of the worker holds no unread bytes.
\<close>

definition nblocks :: "disk \<Rightarrow> nat" where
  "nblocks dk = nat (g_cyl dk) * nat (g_sec dk)"

definition sector :: "disk \<Rightarrow> nat \<Rightarrow> byte list" where
  "sector dk i = take BLKSZ (drop (i * BLKSZ) (g_base dk))"

definition img_ok :: "disk_t \<Rightarrow> disk \<Rightarrow> bool" where
  "img_ok d dk \<longleftrightarrow> 0 < g_cyl dk \<and> 0 < g_sec dk
     \<and> length (g_base dk) = nblocks dk * BLKSZ
     \<and> d_cyl d = g_cyl dk \<and> d_sec d = g_sec dk \<and> nblocks dk < 2 ^ 32"

definition geom_ok :: "disk_t \<Rightarrow> disk \<Rightarrow> bool" where
  "geom_ok d dk \<longleftrightarrow> img_ok d dk \<and> g_unread dk = []"

text \<open>
  Two states of the disk with the same geometry, the same image and the same unread
  bytes.
\<close>

definition same_img :: "disk \<Rightarrow> disk \<Rightarrow> bool" where
  "same_img dk dk' \<longleftrightarrow> g_cyl dk' = g_cyl dk \<and> g_sec dk' = g_sec dk \<and> g_base dk' = g_base dk
     \<and> g_unread dk' = g_unread dk"

text \<open>The state of the disk after a read, and after a write, of the sector \<open>i\<close>.\<close>

definition rd_disk :: "disk \<Rightarrow> nat \<Rightarrow> disk" where
  "rd_disk dk i = seek dk (int (i div nat (g_sec dk))) (i * BLKSZ)"

definition wr_disk :: "disk \<Rightarrow> nat \<Rightarrow> byte list \<Rightarrow> disk" where
  "wr_disk dk i blk = (rd_disk dk i)\<lparr>g_base := memcpy (g_base dk) (i * BLKSZ) blk\<rparr>"

text \<open>
  A layout fits a disk when it covers the blocks of the disk, the FAT sectors lie
  before the directory and the directory lies on the disk with room for its entries.
  The layouts that \<open>compute_layout\<close> gives have this form.
\<close>

definition layout_ok :: "layout_t \<Rightarrow> disk \<Rightarrow> bool" where
  "layout_ok L dk \<longleftrightarrow> unat (total_blocks L) = nblocks dk
     \<and> unat (fat_start L) + unat (fat_sectors L) \<le> unat (dir_start L)
     \<and> unat (dir_start L) + unat (dir_sectors L) \<le> nblocks dk
     \<and> unat (dir_entries L) \<le> 2 * unat (dir_sectors L)"

text \<open>
  A formatted filesystem: the formatted flag is set, the layout fits the disk and the
  FAT cache, once loaded, has one entry per block.
\<close>

definition fs_ok :: "disk_t \<Rightarrow> disk \<Rightarrow> server_state_t \<Rightarrow> bool" where
  "fs_ok d dk G \<longleftrightarrow> geom_ok d dk \<and> G_formatted G \<and> layout_ok (G_L G) dk
     \<and> (fat_loaded (G_fat G) \<longrightarrow> length (fat_v (G_fat G)) = nblocks dk)"

text \<open>The directory entry stored in a slot, and the entries that a name names.\<close>

definition dir_entry :: "disk \<Rightarrow> layout_t \<Rightarrow> nat \<Rightarrow> dirent_fs" where
  "dir_entry dk L slot =
     dirent_unpack (drop ((slot mod 2) * 64) (sector dk (unat (dir_start L) + slot div 2)))"

definition named :: "dirent_fs \<Rightarrow> byte list \<Rightarrow> bool" where
  "named e name \<longleftrightarrow> e_used e \<noteq> 0 \<and> cstr (e_name e) = cstr name"

definition lookup :: "disk \<Rightarrow> layout_t \<Rightarrow> byte list \<Rightarrow> nat option" where
  "lookup dk L name = find (\<lambda>i. named (dir_entry dk L i) name) [0..<unat (dir_entries L)]"

text \<open>
  No two used directory entries hold the same name. \<open>cmd_create\<close> refuses a name that a
  used entry holds, so the directories that the service builds have this form.
\<close>

definition names_unique :: "disk \<Rightarrow> layout_t \<Rightarrow> bool" where
  "names_unique dk L \<longleftrightarrow> (\<forall>i < unat (dir_entries L). \<forall>j < unat (dir_entries L).
      e_used (dir_entry dk L i) \<noteq> 0 \<and> e_used (dir_entry dk L j) \<noteq> 0
      \<and> cstr (e_name (dir_entry dk L i)) = cstr (e_name (dir_entry dk L j)) \<longrightarrow> i = j)"

text \<open>
  The FAT as the service sees it: the cache, loaded from the disk when that has not
  been done yet.
\<close>

definition fat_view :: "disk_t \<Rightarrow> disk \<Rightarrow> server_state_t \<Rightarrow> fat_cache_t" where
  "fat_view d dk G = snd (snd (fat_load d (G_L G) dk (G_fat G)))"

text \<open>
  \<open>is_chain v cur bs\<close>: walking the FAT \<open>v\<close> from \<open>cur\<close> visits exactly the blocks \<open>bs\<close>,
  all of them inside the table, and then reaches the end marker.
\<close>

fun is_chain :: "u32 list \<Rightarrow> u32 \<Rightarrow> u32 list \<Rightarrow> bool" where
  "is_chain v cur [] \<longleftrightarrow> cur = FAT_EOF"
| "is_chain v cur (b # bs) \<longleftrightarrow> cur = b \<and> b \<noteq> FAT_EOF \<and> unat b < length v \<and> is_chain v (v ! unat b) bs"

text \<open>The free blocks of the data area, in the order in which allocation finds them.\<close>

definition free_blocks :: "layout_t \<Rightarrow> u32 list \<Rightarrow> nat list" where
  "free_blocks L v =
     filter (\<lambda>i. v ! i = FAT_FREE) [unat (dir_start L + dir_sectors L)..<unat (total_blocks L)]"

text \<open>
  The sector that holds the bytes of \<open>data\<close> from position \<open>pos\<close> on: at most 128 of
  them, followed by zero bytes.
\<close>

definition chunk :: "byte list \<Rightarrow> nat \<Rightarrow> byte list" where
  "chunk data pos = memcpy (replicate BLKSZ 0) 0 (take BLKSZ (drop pos data))"

text \<open>
  A small installation for the examples: a disk of 6 cylinders with 6 sectors (36 blocks,
  of which 35 hold metadata), the state after formatting it, and the state after the
  file \<open>foo\<close> has been created.
\<close>

definition ex_d :: disk_t where
  "ex_d = \<lparr>d_cyl = 6, d_sec = 6\<rparr>"

definition ex_disk :: disk where
  "ex_disk = the (disk_main 6 6 1000 [])"

definition ex_formatted :: "byte list \<times> disk \<times> server_state_t" where
  "ex_formatted = cmd_format ex_d ex_disk (fs_main (compute_layout ex_d))"

definition ex_created :: "byte list \<times> disk \<times> server_state_t" where
  "ex_created = cmd_create ex_d (fst (snd ex_formatted)) (snd (snd ex_formatted)) (bytes ''foo'')"

text \<open>The state after the five bytes \<open>HELLO\<close> have been written to \<open>foo\<close>.\<close>

definition ex_written :: "disk \<times> server_state_t" where
  "ex_written =
     (case the (cmd_write ex_d (fst (snd ex_created)) (snd (snd ex_created)) (bytes ''foo'') 5
                  (bytes ''HELLO'')) of
        (rv, rep, rest, dk, G) \<Rightarrow> (dk, G))"

text \<open>
  A large installation: a disk of 8192 cylinders with 8192 sectors (\<open>2^26\<close> blocks),
  formatted, with the file \<open>foo\<close> created, and \<open>2^32 - 1\<close> bytes of data.
\<close>

definition big_d :: disk_t where
  "big_d = \<lparr>d_cyl = 8192, d_sec = 8192\<rparr>"

definition big_disk :: disk where
  "big_disk = the (disk_main 8192 8192 1000 [])"

definition big_created :: "byte list \<times> disk \<times> server_state_t" where
  "big_created =
     (case cmd_format big_d big_disk (fs_main (compute_layout big_d)) of
        (rep, dk, G) \<Rightarrow> cmd_create big_d dk G (bytes ''foo''))"

definition big_data :: "byte list" where
  "big_data = replicate 4294967295 65"

section \<open>The disk service: properties\<close>

lemma ascii_simps: "ascii CHR ''0'' = 48" "ascii CHR ''1'' = 49" "ascii CHR ''2'' = 50"
  by (simp_all add: ascii_def)

lemma idx_lt:
  assumes "0 \<le> c" "c < C" "0 \<le> s" "s < S"
  shows "(nat c * nat S + nat s) * BLKSZ + BLKSZ \<le> nat C * nat S * BLKSZ"
proof -
  have "nat c + 1 \<le> nat C" using assms by simp
  then have "(nat c + 1) * nat S \<le> nat C * nat S" by (rule mult_le_mono1)
  then have a: "nat c * nat S + nat S \<le> nat C * nat S" by (simp add: algebra_simps)
  have b: "nat s + 1 \<le> nat S" using assms by linarith
  from a b have "nat c * nat S + nat s + 1 \<le> nat C * nat S" by linarith
  then have "(nat c * nat S + nat s + 1) * BLKSZ \<le> nat C * nat S * BLKSZ" by (rule mult_le_mono1)
  then show ?thesis by (simp add: algebra_simps)
qed

lemma blk_ptr_bound:
  "disk_ok dk \<Longrightarrow> validate_cs dk c s \<Longrightarrow> blk_ptr dk c s + BLKSZ \<le> length (g_base dk)"
  unfolding disk_ok_def validate_cs_def blk_ptr_def
  using idx_lt [of c "g_cyl dk" s "g_sec dk"] by simp

lemma sleep_tracks_fields [simp]:
  "g_cyl (sleep_tracks dk a b) = g_cyl dk"
  "g_sec (sleep_tracks dk a b) = g_sec dk"
  "g_track_us (sleep_tracks dk a b) = g_track_us dk"
  "g_base (sleep_tracks dk a b) = g_base dk"
  "g_head_cyl (sleep_tracks dk a b) = g_head_cyl dk"
  "g_unread (sleep_tracks dk a b) = g_unread dk"
  by (simp_all add: sleep_tracks_def Let_def)

lemma blk_ptr_sleep [simp]: "blk_ptr (sleep_tracks dk a b) c s = blk_ptr dk c s"
  by (simp add: blk_ptr_def)

lemma blk_ptr_upd [simp]:
  "blk_ptr (dk\<lparr>g_head_cyl := h, g_log := l\<rparr>) c s = blk_ptr dk c s"
  by (simp add: blk_ptr_def)

lemma length_memcpy [simp]:
  "off + length src \<le> length dst \<Longrightarrow> length (memcpy dst off src) = length dst"
  by (simp add: memcpy_def)

lemma take_drop_memcpy:
  "off + length src \<le> length dst \<Longrightarrow> take (length src) (drop off (memcpy dst off src)) = src"
  by (simp add: memcpy_def)

lemma handle_R_valid:
  "validate_cs dk c s \<Longrightarrow>
   handle_R dk c s = (0, ascii CHR ''1'' # take BLKSZ (drop (blk_ptr dk c s) (g_base dk)),
                      seek dk c (blk_ptr dk c s))"
  by (simp add: handle_R_def Let_def seek_def)

lemma handle_R_invalid:
  "\<not> validate_cs dk c s \<Longrightarrow> handle_R dk c s = (0, [ascii CHR ''0''], dk)"
  by (simp add: handle_R_def)

lemma handle_W_valid:
  "validate_cs dk c s \<Longrightarrow> 0 \<le> l \<Longrightarrow> l \<le> int BLKSZ \<Longrightarrow> nat l \<le> length inp \<Longrightarrow>
   handle_W dk inp c s l =
     (0, [ascii CHR ''1''], drop (nat l) inp,
      (seek dk c (blk_ptr dk c s))
        \<lparr>g_base := memcpy (g_base dk) (blk_ptr dk c s) (take (nat l) inp @ replicate (BLKSZ - nat l) 0)\<rparr>)"
  by (simp add: handle_W_def Let_def seek_def)

lemma handle_W_invalid:
  "\<not> validate_cs dk c s \<or> l < 0 \<or> l > int BLKSZ \<Longrightarrow>
   handle_W dk inp c s l = (0, [ascii CHR ''0''], inp, dk)"
  by (auto simp: handle_W_def)

lemma seek_fields [simp]:
  "g_cyl (seek dk c p) = g_cyl dk"
  "g_sec (seek dk c p) = g_sec dk"
  "g_track_us (seek dk c p) = g_track_us dk"
  "g_base (seek dk c p) = g_base dk"
  "g_head_cyl (seek dk c p) = c"
  "g_unread (seek dk c p) = g_unread dk"
  by (simp_all add: seek_def)


text \<open>
  Claim C2. A write of at most 128 bytes to a valid sector is acknowledged with \<open>'1'\<close>
  and consumes exactly the payload; a read of the same sector then returns \<open>'1'\<close>
  followed by the payload padded with zero bytes to 128 bytes.
\<close>

theorem disk_write_read:
  assumes ok: "disk_ok dk" and v: "validate_cs dk c s" and len: "length d \<le> BLKSZ"
    and w: "handle_W dk (d @ rest) c s (int (length d)) = (rv, out, inp', dk')"
    and r: "handle_R dk' c s = (rv', out', dk'')"
  shows "out = [ascii CHR ''1''] \<and> inp' = rest
       \<and> out' = ascii CHR ''1'' # d @ replicate (BLKSZ - length d) 0"
proof -
  let ?p = "blk_ptr dk c s"
  let ?buf = "d @ replicate (BLKSZ - length d) 0"
  have lb: "length ?buf = BLKSZ" using len by simp
  have pb: "?p + length ?buf \<le> length (g_base dk)" using blk_ptr_bound [OF ok v] lb by simp
  from w handle_W_valid [OF v, of "int (length d)" "d @ rest"] len
  have 1: "out = [ascii CHR ''1'']" "inp' = rest"
    and dk': "dk' = (seek dk c ?p)\<lparr>g_base := memcpy (g_base dk) ?p ?buf\<rparr>"
    by simp_all
  have v': "validate_cs dk' c s" using v dk' by (simp add: validate_cs_def)
  have p': "blk_ptr dk' c s = ?p" using dk' by (simp add: blk_ptr_def)
  have "take BLKSZ (drop ?p (g_base dk')) = ?buf"
    using take_drop_memcpy [OF pb] lb dk' by simp
  with r handle_R_valid [OF v'] p' have "out' = ascii CHR ''1'' # ?buf" by simp
  with 1 show ?thesis by simp
qed


theorem disk_write_read_witness:
  "disk_ok (the (disk_main 4 4 0 [])) \<and> validate_cs (the (disk_main 4 4 0 [])) 0 0
   \<and> fst (snd (handle_W (the (disk_main 4 4 0 [])) (bytes ''HELLO'') 0 0 5)) = [ascii CHR ''1'']
   \<and> fst (snd (handle_R (snd (snd (snd (handle_W (the (disk_main 4 4 0 [])) (bytes ''HELLO'') 0 0 5)))) 0 0))
       = ascii CHR ''1'' # bytes ''HELLO'' @ replicate 123 0"
proof -
  let ?dk = "the (disk_main 4 4 0 [])"
  have f: "g_cyl ?dk = 4" "g_sec ?dk = 4" "g_head_cyl ?dk = 0" "length (g_base ?dk) = 2048"
    by (simp_all add: disk_main_def Let_def BLKSZ_def)
  have ok: "disk_ok ?dk" using f by (simp add: disk_ok_def BLKSZ_def)
  have v: "validate_cs ?dk 0 0" using f by (simp add: validate_cs_def)
  obtain rv out inp' dk' where w: "handle_W ?dk (bytes ''HELLO'' @ []) 0 0 (int (length (bytes ''HELLO''))) = (rv, out, inp', dk')"
    by (metis prod_cases4)
  obtain rv' out' dk'' where r: "handle_R dk' 0 0 = (rv', out', dk'')"
    by (metis prod_cases3)
  have "length (bytes ''HELLO'') \<le> BLKSZ" by (simp add: bytes_def BLKSZ_def)
  from disk_write_read [OF ok v this w r] w r ok v show ?thesis
    by (simp add: bytes_def BLKSZ_def)
qed


text \<open>
  Claim C5. A read with an invalid cylinder or sector is answered with the single byte
  \<open>'0'\<close>. A write with an invalid cylinder or sector, or with a length outside
  \<open>[0, 128]\<close>, is answered with the single byte \<open>'0'\<close>, and neither the bytes that
  follow the command nor the disk are touched. (The length belongs to the write
  command only.)
\<close>

theorem disk_reject:
  "(\<not> validate_cs dk c s \<longrightarrow> handle_R dk c s = (0, [ascii CHR ''0''], dk))
   \<and> (\<not> validate_cs dk c s \<or> l < 0 \<or> l > 128 \<longrightarrow> handle_W dk inp c s l = (0, [ascii CHR ''0''], inp, dk))"
  using handle_R_invalid [of dk c s] handle_W_invalid [of dk c s l inp]
  by (auto simp: BLKSZ_def)

theorem disk_reject_witness:
  "\<not> validate_cs (the (disk_main 4 4 0 [])) 4 0
   \<and> handle_R (the (disk_main 4 4 0 [])) 4 0 = (0, [ascii CHR ''0''], the (disk_main 4 4 0 []))
   \<and> handle_W (the (disk_main 4 4 0 [])) (replicate 200 65) 0 0 200
        = (0, [ascii CHR ''0''], replicate 200 65, the (disk_main 4 4 0 []))"
proof -
  have "\<not> validate_cs (the (disk_main 4 4 0 [])) 4 0"
    by (simp add: validate_cs_def disk_main_def Let_def BLKSZ_def)
  with disk_reject [of "the (disk_main 4 4 0 [])" 4 0 200 "replicate 200 65"]
    disk_reject [of "the (disk_main 4 4 0 [])" 0 0 200 "replicate 200 65"]
  show ?thesis by simp
qed




lemma disk_main_eq:
  assumes "0 < C" "0 < S" "nat C * nat S * BLKSZ < 2 ^ 63"
  shows "disk_main C S T f = Some \<lparr>g_cyl = C, g_sec = S, g_track_us = T,
            g_base = take (nat C * nat S * BLKSZ) f @ replicate (nat C * nat S * BLKSZ - length f) 0,
            g_head_cyl = 0, g_log = [], g_unread = []\<rparr>"
proof -
  define n where "n = nat C * nat S * BLKSZ"
  have "0 < nat C * nat S" using assms(1,2) by simp
  then have n0: "0 < n" by (simp add: n_def BLKSZ_def)
  have n1: "n < 2 ^ 63" using assms(3) by (simp add: n_def)
  then have "n < 2 ^ 64" by simp
  then have m: "n mod 2 ^ 64 = n" by (rule mod_less)
  show ?thesis
    using assms(1,2) n0 n1 unfolding disk_main_def n_def [symmetric] Let_def m by simp
qed

lemma disk_main_ok:
  assumes "disk_main C S T f = Some dk"
  shows "g_head_cyl dk = 0 \<and> g_cyl dk = C \<and> g_sec dk = S \<and> g_track_us dk = T \<and> 0 < C \<and> 0 < S
     \<and> g_unread dk = [] \<and> (nat C * nat S * BLKSZ < 2 ^ 64 \<longrightarrow> disk_ok dk)"
proof -
  define n where "n = nat C * nat S * BLKSZ"
  define m where "m = n mod 2 ^ 64"
  have p: "0 < C" "0 < S" using assms by (auto simp: disk_main_def split: if_splits)
  have dk: "dk = \<lparr>g_cyl = C, g_sec = S, g_track_us = T,
            g_base = take m f @ replicate (m - length f) 0, g_head_cyl = 0, g_log = [], g_unread = []\<rparr>"
    using assms p unfolding disk_main_def n_def [symmetric] Let_def m_def [symmetric]
    by (simp split: if_splits)
  have "length (take m f @ replicate (m - length f) (0::byte)) = m" by simp
  then have l: "length (g_base dk) = m" by (simp add: dk)
  have "n < 2 ^ 64 \<longrightarrow> disk_ok dk"
  proof
    assume "n < 2 ^ 64"
    then have "m = n" unfolding m_def by (rule mod_less)
    then show "disk_ok dk" using l p unfolding disk_ok_def n_def by (simp add: dk)
  qed
  then show ?thesis using p unfolding n_def by (simp add: dk)
qed











section \<open>The filesystem service: layout\<close>

lemma unat_add_u32: "unat a + unat b < 2 ^ 32 \<Longrightarrow> unat (a + b :: u32) = unat a + unat b"
  using unat_add_lem [of a b] by simp

lemma unat_word_of_int_u32: "0 \<le> i \<Longrightarrow> i < 2 ^ 32 \<Longrightarrow> unat (word_of_int i :: u32) = nat i"
  by (simp add: unat_eq_nat_uint uint_word_of_int take_bit_int_eq_self)

lemma unat_total_blocks_of:
  "0 \<le> d_cyl d * d_sec d \<Longrightarrow> d_cyl d * d_sec d < 2 ^ 32 \<Longrightarrow>
   unat (total_blocks_of d) = nat (d_cyl d * d_sec d)"
  unfolding total_blocks_of_def by (rule unat_word_of_int_u32)

lemma compute_layout_fields:
  assumes "0 \<le> d_cyl d * d_sec d" "d_cyl d * d_sec d * 4 + 127 < 2 ^ 32"
  shows "unat (total_blocks (compute_layout d)) = nat (d_cyl d * d_sec d)"
    and "fat_start (compute_layout d) = 1"
    and "unat (fat_sectors (compute_layout d)) = (nat (d_cyl d * d_sec d) * 4 + 127) div 128"
    and "unat (dir_start (compute_layout d)) = 1 + (nat (d_cyl d * d_sec d) * 4 + 127) div 128"
    and "dir_sectors (compute_layout d) = 32"
    and "dir_entries (compute_layout d) = 64"
    and "unat (dir_start (compute_layout d) + dir_sectors (compute_layout d))
           = 1 + (nat (d_cyl d * d_sec d) * 4 + 127) div 128 + 32"
proof -
  define P where "P = d_cyl d * d_sec d"
  define N where "N = nat P"
  define tb where "tb = total_blocks_of d"
  define fsw :: u32 where "fsw = (tb * 4 + 128 - 1) div 128"
  have P: "0 \<le> P" "P * 4 + 127 < 4294967296" using assms by (simp_all add: P_def)
  then have "P < 2 ^ 32" by simp
  with P(1) have "unat (word_of_int P :: u32) = nat P" by (rule unat_word_of_int_u32)
  then have N: "unat tb = N" by (simp add: tb_def N_def total_blocks_of_def P_def)
  have Nb: "N * 4 + 127 < 2 ^ 32" unfolding N_def using P by (simp add: nat_less_iff)
  have a: "unat (tb * 4) = N * 4"
  proof -
    have "unat (tb * 4) = (unat tb * unat (4 :: u32)) mod 2 ^ 32" by (simp add: unat_word_ariths)
    also have "\<dots> = N * 4" using N Nb by simp
    finally show ?thesis .
  qed
  have e: "tb * 4 + 128 - 1 = tb * 4 + 127" by simp
  have b: "unat (tb * 4 + 128 - 1) = N * 4 + 127"
    unfolding e using a Nb by (subst unat_add_u32) simp_all
  have c: "unat fsw = (N * 4 + 127) div 128"
    unfolding fsw_def using b by (simp add: unat_div)
  have cb: "(N * 4 + 127) div 128 < 2 ^ 25"
    using Nb by (intro less_mult_imp_div_less) simp
  have L: "compute_layout d = \<lparr>total_blocks = tb, fat_start = 1, fat_sectors = fsw,
          dir_start = 1 + fsw, dir_sectors = 32, dir_entries = 64\<rparr>"
    by (simp add: compute_layout_def Let_def BLKSZ_def fsw_def tb_def)
  have ds: "unat (1 + fsw) = 1 + (N * 4 + 127) div 128"
    using c cb by (subst unat_add_u32) simp_all
  have de: "unat (1 + fsw + 32) = 1 + (N * 4 + 127) div 128 + 32"
    using ds cb by (subst unat_add_u32) simp_all
  show "unat (total_blocks (compute_layout d)) = nat (d_cyl d * d_sec d)"
    using N by (simp add: L N_def P_def)
  show "fat_start (compute_layout d) = 1" by (simp add: L)
  show "unat (fat_sectors (compute_layout d)) = (nat (d_cyl d * d_sec d) * 4 + 127) div 128"
    using c by (simp add: L N_def P_def)
  show "unat (dir_start (compute_layout d)) = 1 + (nat (d_cyl d * d_sec d) * 4 + 127) div 128"
    using ds by (simp add: L N_def P_def)
  show "dir_sectors (compute_layout d) = 32" by (simp add: L)
  show "dir_entries (compute_layout d) = 64" by (simp add: L)
  show "unat (dir_start (compute_layout d) + dir_sectors (compute_layout d))
           = 1 + (nat (d_cyl d * d_sec d) * 4 + 127) div 128 + 32"
    using de by (simp add: L N_def P_def)
qed

section \<open>The filesystem service: unformatted state\<close>

lemma reply_simps:
  "reply ''0'' = [48, 10]" "reply ''1'' = [49, 10]" "reply ''2'' = [50, 10]"
  "reply ''1 0 '' = [49, 32, 48, 32, 10]" "reply ''2 0 '' = [50, 32, 48, 32, 10]"
  by (simp_all add: reply_def bytes_def ascii_def NL_def)

text \<open>
  Claim C10. While the filesystem is not formatted, create, delete and write (whose
  payload has arrived) reply \<open>"2\n"\<close> and read replies \<open>"1 0 \n"\<close>; the disk and the
  state of the service stay as they are.
\<close>

theorem unformatted_ops:
  "\<not> G_formatted G \<longrightarrow>
     cmd_create d dk G name = (reply ''2'', dk, G)
     \<and> cmd_delete d dk G name = Some (reply ''2'', dk, G)
     \<and> cmd_read d dk G name junk = (reply ''1 0 '', dk, G)
     \<and> (unat len \<le> length inp \<longrightarrow>
          cmd_write d dk G name len inp = Some (0, reply ''2'', drop (unat len) inp, dk, G))"
  by (auto simp: cmd_create_def cmd_delete_def cmd_read_def cmd_write_def Let_def)

theorem unformatted_ops_witness:
  "\<not> G_formatted (fs_main (compute_layout \<lparr>d_cyl = 4, d_sec = 4\<rparr>))
   \<and> cmd_create \<lparr>d_cyl = 4, d_sec = 4\<rparr> (the (disk_main 4 4 0 [])) (fs_main (compute_layout \<lparr>d_cyl = 4, d_sec = 4\<rparr>)) (bytes ''foo'')
       = ([50, 10], the (disk_main 4 4 0 []), fs_main (compute_layout \<lparr>d_cyl = 4, d_sec = 4\<rparr>))
   \<and> cmd_read \<lparr>d_cyl = 4, d_sec = 4\<rparr> (the (disk_main 4 4 0 [])) (fs_main (compute_layout \<lparr>d_cyl = 4, d_sec = 4\<rparr>)) (bytes ''foo'') (\<lambda>i. 0)
       = ([49, 32, 48, 32, 10], the (disk_main 4 4 0 []), fs_main (compute_layout \<lparr>d_cyl = 4, d_sec = 4\<rparr>))
   \<and> cmd_write \<lparr>d_cyl = 4, d_sec = 4\<rparr> (the (disk_main 4 4 0 [])) (fs_main (compute_layout \<lparr>d_cyl = 4, d_sec = 4\<rparr>)) (bytes ''foo'') 3 (bytes ''abcR'')
       = Some (0, [50, 10], bytes ''R'', the (disk_main 4 4 0 []), fs_main (compute_layout \<lparr>d_cyl = 4, d_sec = 4\<rparr>))"
proof -
  have u: "\<not> G_formatted (fs_main (compute_layout \<lparr>d_cyl = 4, d_sec = 4\<rparr>))"
    by (simp add: fs_main_def)
  have l: "unat (3 :: u32) \<le> length (bytes ''abcR'')" by (simp add: bytes_def)
  have dr: "drop (unat (3 :: u32)) (bytes ''abcR'') = bytes ''R''" by (simp add: bytes_def)
  from unformatted_ops [of "fs_main (compute_layout \<lparr>d_cyl = 4, d_sec = 4\<rparr>)"
      "\<lparr>d_cyl = 4, d_sec = 4\<rparr>" "the (disk_main 4 4 0 [])" "bytes ''foo''" "\<lambda>i. 0" 3 "bytes ''abcR''"] u l dr
  show ?thesis by (simp add: reply_simps)
qed

section \<open>The filesystem service: the disk as an array of sectors\<close>

lemma BLKSZ_pos [simp]: "0 < BLKSZ" by (simp add: BLKSZ_def)

lemma same_img_refl [simp]: "same_img dk dk" by (simp add: same_img_def)

lemma same_img_trans: "same_img a b \<Longrightarrow> same_img b c \<Longrightarrow> same_img a c"
  by (simp add: same_img_def)

lemma same_img_nblocks: "same_img dk dk' \<Longrightarrow> nblocks dk' = nblocks dk"
  by (simp add: same_img_def nblocks_def)

lemma same_img_sector: "same_img dk dk' \<Longrightarrow> sector dk' i = sector dk i"
  by (simp add: same_img_def sector_def)

lemma same_img_geom: "same_img dk dk' \<Longrightarrow> geom_ok d dk \<Longrightarrow> geom_ok d dk'"
  by (simp add: same_img_def geom_ok_def img_ok_def nblocks_def)

lemma same_img_layout: "same_img dk dk' \<Longrightarrow> layout_ok L dk \<Longrightarrow> layout_ok L dk'"
  by (simp add: layout_ok_def same_img_nblocks)

lemma same_img_dir_entry: "same_img dk dk' \<Longrightarrow> dir_entry dk' L i = dir_entry dk L i"
  by (simp add: dir_entry_def same_img_sector)

lemma same_img_rd [simp]: "same_img dk (rd_disk dk i)"
  by (simp add: same_img_def rd_disk_def)

lemma geom_sec:
  assumes "geom_ok d dk"
  shows "unat (word_of_int (d_sec d) :: u32) = nat (g_sec dk)" and "0 < nat (g_sec dk)"
proof -
  define C where "C = nat (g_cyl dk)"
  define S where "S = nat (g_sec dk)"
  have p: "0 < C" "0 < S" "C * S < 2 ^ 32"
    using assms by (simp_all add: geom_ok_def img_ok_def nblocks_def C_def S_def)
  have "S \<le> C * S" using p(1) by simp
  with p have "S < 2 ^ 32" by linarith
  then have "g_sec dk < 2 ^ 32" using p(2) by (simp add: S_def)
  moreover have "0 \<le> g_sec dk" using assms by (simp add: geom_ok_def img_ok_def)
  ultimately have "unat (word_of_int (g_sec dk) :: u32) = nat (g_sec dk)"
    by (rule unat_word_of_int_u32 [rotated])
  then show "unat (word_of_int (d_sec d) :: u32) = nat (g_sec dk)"
    using assms by (simp add: geom_ok_def img_ok_def)
  show "0 < nat (g_sec dk)" using p by (simp add: S_def)
qed

lemma idx_to_cs_eq:
  assumes "geom_ok d dk"
  shows "idx_to_cs d idx = (int (unat idx div nat (g_sec dk)), int (unat idx mod nat (g_sec dk)))"
proof -
  have "uint (idx div word_of_int (d_sec d)) = int (unat idx div nat (g_sec dk))"
    using geom_sec(1) [OF assms] by (metis unat_div uint_nat)
  moreover have "uint (idx mod word_of_int (d_sec d)) = int (unat idx mod nat (g_sec dk))"
    using geom_sec(1) [OF assms] by (metis unat_mod uint_nat)
  ultimately show ?thesis by (simp add: idx_to_cs_def)
qed

lemma div_less_mult: "0 < (S::nat) \<Longrightarrow> i div S < C \<longleftrightarrow> i < C * S"
  by (simp add: div_less_iff_less_mult mult.commute)

lemma validate_idx:
  assumes "geom_ok d dk"
  shows "validate_cs dk (int (i div nat (g_sec dk))) (int (i mod nat (g_sec dk))) \<longleftrightarrow> i < nblocks dk"
proof -
  define C where "C = nat (g_cyl dk)"
  define S where "S = nat (g_sec dk)"
  have p: "0 < C" "0 < S" "g_cyl dk = int C" "g_sec dk = int S"
    using assms by (simp_all add: geom_ok_def img_ok_def C_def S_def)
  have "validate_cs dk (int (i div S)) (int (i mod S)) \<longleftrightarrow> i div S < C"
    using p by (simp add: validate_cs_def)
  also have "\<dots> \<longleftrightarrow> i < C * S" using p(2) by (rule div_less_mult)
  finally show ?thesis by (simp add: S_def C_def nblocks_def)
qed

lemma blk_ptr_idx:
  "blk_ptr dk (int (i div nat (g_sec dk))) (int (i mod nat (g_sec dk))) = i * BLKSZ"
  by (simp add: blk_ptr_def)

lemma sector_length: "geom_ok d dk \<Longrightarrow> i < nblocks dk \<Longrightarrow> length (sector dk i) = BLKSZ"
proof -
  assume g: "geom_ok d dk" and i: "i < nblocks dk"
  have "Suc i \<le> nblocks dk" using i by simp
  then have "Suc i * BLKSZ \<le> nblocks dk * BLKSZ" by (rule mult_le_mono1)
  then have "i * BLKSZ + BLKSZ \<le> length (g_base dk)" using g by (simp add: geom_ok_def img_ok_def)
  then show ?thesis by (simp add: sector_def)
qed

lemma geom_img: "geom_ok d dk \<Longrightarrow> img_ok d dk" and geom_sync: "geom_ok d dk \<Longrightarrow> g_unread dk = []"
  by (simp_all add: geom_ok_def)

lemma unread_upd [simp]:
  "nblocks (dk\<lparr>g_unread := u\<rparr>) = nblocks dk"
  "sector (dk\<lparr>g_unread := u\<rparr>) i = sector dk i"
  "img_ok d (dk\<lparr>g_unread := u\<rparr>) = img_ok d dk"
  by (simp_all add: nblocks_def sector_def img_ok_def)

lemma disk_read_idx_eq:
  assumes g: "geom_ok d dk"
  shows "disk_read_idx d dk idx =
     (if unat idx < nblocks dk then (Some (sector dk (unat idx)), rd_disk dk (unat idx)) else (None, dk))"
proof (cases "unat idx < nblocks dk")
  case True
  then have v: "validate_cs dk (int (unat idx div nat (g_sec dk))) (int (unat idx mod nat (g_sec dk)))"
    using validate_idx [OF g] by simp
  have l: "length (sector dk (unat idx)) = BLKSZ" using g True by (rule sector_length)
  show ?thesis
    using True l geom_sync [OF g]
    by (simp add: disk_read_idx_def idx_to_cs_eq [OF g] handle_R_valid [OF v] blk_ptr_idx
        rd_disk_def sector_def)
next
  case False
  then have v: "\<not> validate_cs dk (int (unat idx div nat (g_sec dk))) (int (unat idx mod nat (g_sec dk)))"
    using validate_idx [OF g] by simp
  show ?thesis
    using False geom_sync [OF g]
    by (simp add: disk_read_idx_def idx_to_cs_eq [OF g] handle_R_invalid [OF v] ascii_simps)
qed

lemma disk_write_idx_eq:
  assumes g: "geom_ok d dk" and l: "length blk = BLKSZ"
  shows "disk_write_idx d dk idx blk =
     (if unat idx < nblocks dk then (True, wr_disk dk (unat idx) blk)
      else (False, dk\<lparr>g_unread := blk\<rparr>))"
proof (cases "unat idx < nblocks dk")
  case True
  then have v: "validate_cs dk (int (unat idx div nat (g_sec dk))) (int (unat idx mod nat (g_sec dk)))"
    using validate_idx [OF g] by simp
  have h: "handle_W dk blk (int (unat idx div nat (g_sec dk))) (int (unat idx mod nat (g_sec dk))) (int BLKSZ)
     = (0, [ascii CHR ''1''], drop (nat (int BLKSZ)) blk, wr_disk dk (unat idx) blk)"
    using l by (subst handle_W_valid [OF v]) (simp_all add: blk_ptr_idx wr_disk_def rd_disk_def)
  have u: "g_unread (wr_disk dk (unat idx) blk) = []"
    using geom_sync [OF g] by (simp add: wr_disk_def rd_disk_def)
  have "(wr_disk dk (unat idx) blk)\<lparr>g_unread := drop BLKSZ blk\<rparr> = wr_disk dk (unat idx) blk"
    using u l by simp
  then show ?thesis
    using True h geom_sync [OF g] by (simp add: disk_write_idx_def idx_to_cs_eq [OF g])
next
  case False
  then have v: "\<not> validate_cs dk (int (unat idx div nat (g_sec dk))) (int (unat idx mod nat (g_sec dk)))"
    using validate_idx [OF g] by simp
  show ?thesis
    using False v geom_sync [OF g]
    by (simp add: disk_write_idx_def idx_to_cs_eq [OF g] handle_W_invalid ascii_simps)
qed

lemma wr_disk_geom:
  assumes g: "geom_ok d dk" and l: "length blk = BLKSZ" and i: "i < nblocks dk"
  shows "geom_ok d (wr_disk dk i blk)" and "nblocks (wr_disk dk i blk) = nblocks dk"
proof -
  have "Suc i \<le> nblocks dk" using i by simp
  then have "Suc i * BLKSZ \<le> nblocks dk * BLKSZ" by (rule mult_le_mono1)
  then have b: "i * BLKSZ + length blk \<le> length (g_base dk)" using g l by (simp add: geom_ok_def img_ok_def)
  show n: "nblocks (wr_disk dk i blk) = nblocks dk"
    by (simp add: wr_disk_def rd_disk_def nblocks_def)
  show "geom_ok d (wr_disk dk i blk)"
    using g length_memcpy [OF b] n unfolding geom_ok_def img_ok_def
    by (simp add: wr_disk_def rd_disk_def)
qed

lemma sector_memcpy_same:
  "i * BLKSZ + BLKSZ \<le> length xs \<Longrightarrow> length blk = BLKSZ \<Longrightarrow>
   take BLKSZ (drop (i * BLKSZ) (memcpy xs (i * BLKSZ) blk)) = blk"
  using take_drop_memcpy [of "i * BLKSZ" blk xs] by simp

lemma sector_memcpy_other:
  assumes "i * BLKSZ + BLKSZ \<le> length xs" "length blk = BLKSZ" "j \<noteq> i"
  shows "take BLKSZ (drop (j * BLKSZ) (memcpy xs (i * BLKSZ) blk)) = take BLKSZ (drop (j * BLKSZ) xs)"
proof (cases "j < i")
  case True
  then have "Suc j \<le> i" by simp
  then have "Suc j * BLKSZ \<le> i * BLKSZ" by (rule mult_le_mono1)
  then have le: "j * BLKSZ + BLKSZ \<le> i * BLKSZ" by simp
  have "memcpy xs (i * BLKSZ) blk = take (i * BLKSZ) xs @ (blk @ drop (i * BLKSZ + BLKSZ) xs)"
    using assms by (simp add: memcpy_def)
  moreover have "length (take (i * BLKSZ) xs) = i * BLKSZ" using assms by simp
  ultimately have "take BLKSZ (drop (j * BLKSZ) (memcpy xs (i * BLKSZ) blk))
      = take BLKSZ (drop (j * BLKSZ) (take (i * BLKSZ) xs))"
    using le by simp
  also have "\<dots> = take BLKSZ (drop (j * BLKSZ) xs)"
    using le by (simp add: drop_take min_def)
  finally show ?thesis .
next
  case False
  with assms have "Suc i \<le> j" by simp
  then have "Suc i * BLKSZ \<le> j * BLKSZ" by (rule mult_le_mono1)
  then have le: "i * BLKSZ + BLKSZ \<le> j * BLKSZ" by simp
  have m: "memcpy xs (i * BLKSZ) blk = (take (i * BLKSZ) xs @ blk) @ drop (i * BLKSZ + BLKSZ) xs"
    using assms by (simp add: memcpy_def)
  have len: "length (take (i * BLKSZ) xs @ blk) = i * BLKSZ + BLKSZ" using assms by simp
  have "drop (j * BLKSZ) (memcpy xs (i * BLKSZ) blk)
      = drop (j * BLKSZ - (i * BLKSZ + BLKSZ)) (drop (i * BLKSZ + BLKSZ) xs)"
    unfolding m using le len by (simp del: append_assoc)
  also have "\<dots> = drop (j * BLKSZ) xs" using le by simp
  finally show ?thesis by simp
qed

lemma wr_disk_sector:
  assumes g: "geom_ok d dk" and l: "length blk = BLKSZ" and i: "i < nblocks dk"
  shows "sector (wr_disk dk i blk) j = (if j = i then blk else sector dk j)"
proof -
  have "Suc i \<le> nblocks dk" using i by simp
  then have "Suc i * BLKSZ \<le> nblocks dk * BLKSZ" by (rule mult_le_mono1)
  then have b: "i * BLKSZ + BLKSZ \<le> length (g_base dk)" using g by (simp add: geom_ok_def img_ok_def)
  show ?thesis
    using sector_memcpy_same [OF b l] sector_memcpy_other [OF b l]
    by (simp add: sector_def wr_disk_def rd_disk_def)
qed

subsection \<open>Loading and flushing the FAT\<close>

lemma unat_add_of_nat:
  assumes "unat a + s < 2 ^ 32"
  shows "unat (a + of_nat s :: u32) = unat a + s"
proof -
  have s: "s < 2 ^ 32" using assms by simp
  then have "unat (of_nat s :: u32) = s" by (simp add: unat_of_nat)
  with assms show ?thesis by (simp add: unat_add_u32)
qed

lemma fat_load_entries_length:
  "length (fst (fat_load_entries blk tb js v idx)) = length v"
  by (induction js arbitrary: v idx) auto

lemma fat_load_sectors_ok:
  assumes "geom_ok d dk" and "\<forall>s \<in> set ss. unat (fat_start L + of_nat s) < nblocks dk"
  shows "\<exists>dk' v'. fat_load_sectors d L ss dk v idx = (True, dk', v')
            \<and> same_img dk dk' \<and> length v' = length v"
  using assms
proof (induction ss arbitrary: dk v idx)
  case Nil
  then show ?case by simp
next
  case (Cons s ss)
  let ?i = "unat (fat_start L + of_nat s)"
  let ?dk1 = "rd_disk dk ?i"
  obtain v1 idx1 where e: "fat_load_entries (sector dk ?i) (unat (total_blocks L)) [0..<BLKSZ div 4] v idx = (v1, idx1)"
    by (cases "fat_load_entries (sector dk ?i) (unat (total_blocks L)) [0..<BLKSZ div 4] v idx")
  have l1: "length v1 = length v"
    using fat_load_entries_length [of "sector dk ?i" "unat (total_blocks L)" "[0..<BLKSZ div 4]" v idx] e by simp
  have g1: "geom_ok d ?dk1" using Cons.prems(1) by (rule same_img_geom [OF same_img_rd])
  have r1: "\<forall>s \<in> set ss. unat (fat_start L + of_nat s) < nblocks ?dk1"
    using Cons.prems(2) by (simp add: same_img_nblocks [OF same_img_rd])
  from Cons.IH [OF g1 r1, of v1 idx1] obtain dk' v' where
    r: "fat_load_sectors d L ss ?dk1 v1 idx1 = (True, dk', v')" "same_img ?dk1 dk'" "length v' = length v1"
    by blast
  have "fat_load_sectors d L (s # ss) dk v idx = (True, dk', v')"
    using Cons.prems r(1) e by (simp add: disk_read_idx_eq)
  moreover have "same_img dk dk'" using same_img_rd r(2) by (rule same_img_trans)
  ultimately show ?case using r(3) l1 by simp
qed

lemma fat_sector_in_range:
  assumes "layout_ok L dk" "nblocks dk < 2 ^ 32" "s < unat (fat_sectors L)"
  shows "unat (fat_start L + of_nat s) = unat (fat_start L) + s"
    and "unat (fat_start L + of_nat s) < unat (dir_start L)"
proof -
  have b: "unat (fat_start L) + s < unat (dir_start L)" "unat (dir_start L) \<le> nblocks dk"
    using assms by (simp_all add: layout_ok_def)
  then have "unat (fat_start L) + s < 2 ^ 32" using assms(2) by linarith
  then show 1: "unat (fat_start L + of_nat s) = unat (fat_start L) + s" by (rule unat_add_of_nat)
  show "unat (fat_start L + of_nat s) < unat (dir_start L)" using 1 b by simp
qed

lemma fat_load_ok:
  assumes g: "geom_ok d dk" and lo: "layout_ok L dk"
    and c: "fat_loaded fc \<longrightarrow> length (fat_v fc) = nblocks dk"
  shows "\<exists>dk' fc'. fat_load d L dk fc = (True, dk', fc') \<and> same_img dk dk'
           \<and> fat_loaded fc' \<and> length (fat_v fc') = nblocks dk \<and> (fat_loaded fc \<longrightarrow> fc' = fc)"
proof (cases "fat_loaded fc")
  case True
  with c show ?thesis by (simp add: fat_load_def)
next
  case False
  have nb: "nblocks dk < 2 ^ 32" using g by (simp add: geom_ok_def img_ok_def)
  have "\<forall>s \<in> set [0..<unat (fat_sectors L)]. unat (fat_start L + of_nat s) < nblocks dk"
    using fat_sector_in_range(2) [OF lo nb] lo by (fastforce simp: layout_ok_def)
  from fat_load_sectors_ok [OF g this, of "replicate (unat (total_blocks L)) 0" 0]
  obtain dk' v' where r: "fat_load_sectors d L [0..<unat (fat_sectors L)] dk (replicate (unat (total_blocks L)) 0) 0 = (True, dk', v')"
      "same_img dk dk'" "length v' = unat (total_blocks L)"
    by auto
  then show ?thesis using False lo by (simp add: fat_load_def layout_ok_def)
qed

lemma fat_flush_entries_length:
  "length blk = BLKSZ \<Longrightarrow> \<forall>i \<in> set js. i < 32 \<Longrightarrow>
   length (fst (fat_flush_entries tb js v blk idx)) = BLKSZ"
proof (induction js arbitrary: blk idx)
  case Nil
  then show ?case by simp
next
  case (Cons i js)
  have "i < 32" using Cons.prems by simp
  then have "i * 4 + length (le32 (v ! idx)) \<le> length blk"
    using Cons.prems(1) by (simp add: le32_def BLKSZ_def)
  then have "length (memcpy blk (i * 4) (le32 (v ! idx))) = BLKSZ"
    using Cons.prems(1) by simp
  then show ?case using Cons by simp
qed

lemma fat_flush_sectors_ok:
  assumes "geom_ok d dk" and "\<forall>s \<in> set ss. unat (fat_start L + of_nat s) < nblocks dk"
  shows "\<exists>dk'. fat_flush_sectors d L ss dk v idx = (True, dk') \<and> geom_ok d dk'
            \<and> nblocks dk' = nblocks dk
            \<and> (\<forall>j. j \<notin> (\<lambda>s. unat (fat_start L + of_nat s)) ` set ss \<longrightarrow> sector dk' j = sector dk j)"
  using assms
proof (induction ss arbitrary: dk idx)
  case Nil
  then show ?case by simp
next
  case (Cons s ss)
  let ?i = "unat (fat_start L + of_nat s)"
  obtain blk idx1 where e: "fat_flush_entries (unat (total_blocks L)) [0..<BLKSZ div 4] v (replicate BLKSZ 0) idx = (blk, idx1)"
    by (cases "fat_flush_entries (unat (total_blocks L)) [0..<BLKSZ div 4] v (replicate BLKSZ 0) idx")
  have lb: "length blk = BLKSZ"
    using fat_flush_entries_length [of "replicate BLKSZ 0" "[0..<BLKSZ div 4]" "unat (total_blocks L)" v idx] e
    by (simp add: BLKSZ_def)
  have i: "?i < nblocks dk" using Cons.prems(2) by simp
  let ?dk1 = "wr_disk dk ?i blk"
  have g1: "geom_ok d ?dk1" and n1: "nblocks ?dk1 = nblocks dk"
    using wr_disk_geom [OF Cons.prems(1) lb i] by simp_all
  have r1: "\<forall>s \<in> set ss. unat (fat_start L + of_nat s) < nblocks ?dk1"
    using Cons.prems(2) n1 by simp
  from Cons.IH [OF g1 r1, of idx1] obtain dk' where
    r: "fat_flush_sectors d L ss ?dk1 v idx1 = (True, dk')" "geom_ok d dk'" "nblocks dk' = nblocks ?dk1"
       "\<forall>j. j \<notin> (\<lambda>s. unat (fat_start L + of_nat s)) ` set ss \<longrightarrow> sector dk' j = sector ?dk1 j"
    by blast
  have "fat_flush_sectors d L (s # ss) dk v idx = (True, dk')"
    using r(1) e i lb Cons.prems(1) by (simp add: disk_write_idx_eq)
  moreover have "\<forall>j. j \<notin> (\<lambda>s. unat (fat_start L + of_nat s)) ` set (s # ss) \<longrightarrow> sector dk' j = sector dk j"
    using r(4) wr_disk_sector [OF Cons.prems(1) lb i] by auto
  ultimately show ?case using r(2,3) n1 by simp
qed

lemma fat_flush_ok:
  assumes g: "geom_ok d dk" and lo: "layout_ok L dk"
  shows "\<exists>dk'. fat_flush d L dk fc = (True, dk') \<and> geom_ok d dk' \<and> nblocks dk' = nblocks dk
           \<and> (\<forall>j. unat (dir_start L) \<le> j \<longrightarrow> sector dk' j = sector dk j)"
proof (cases "fat_loaded fc")
  case False
  with g show ?thesis by (simp add: fat_flush_def)
next
  case True
  have nb: "nblocks dk < 2 ^ 32" using g by (simp add: geom_ok_def img_ok_def)
  have a: "\<forall>s \<in> set [0..<unat (fat_sectors L)]. unat (fat_start L + of_nat s) < nblocks dk"
    using fat_sector_in_range(2) [OF lo nb] lo by (fastforce simp: layout_ok_def)
  from fat_flush_sectors_ok [OF g a, of "fat_v fc" 0] obtain dk' where
    r: "fat_flush_sectors d L [0..<unat (fat_sectors L)] dk (fat_v fc) 0 = (True, dk')" "geom_ok d dk'"
       "nblocks dk' = nblocks dk"
       "\<forall>j. j \<notin> (\<lambda>s. unat (fat_start L + of_nat s)) ` set [0..<unat (fat_sectors L)] \<longrightarrow> sector dk' j = sector dk j"
    by blast
  have "\<forall>j. unat (dir_start L) \<le> j \<longrightarrow> sector dk' j = sector dk j"
  proof (intro allI impI)
    fix j assume j: "unat (dir_start L) \<le> j"
    have "j \<notin> (\<lambda>s. unat (fat_start L + of_nat s)) ` set [0..<unat (fat_sectors L)]"
      using fat_sector_in_range(2) [OF lo nb] j by fastforce
    with r(4) show "sector dk' j = sector dk j" by simp
  qed
  with r True show ?thesis by (simp add: fat_flush_def)
qed

subsection \<open>Directory entries\<close>

lemma le32_bytes:
  "(ucast (ucast w :: byte) :: u32) OR push_bit 8 (ucast (ucast (drop_bit 8 w) :: byte))
     OR push_bit 16 (ucast (ucast (drop_bit 16 w) :: byte))
     OR push_bit 24 (ucast (ucast (drop_bit 24 w) :: byte)) = (w :: u32)"
proof (rule bit_word_eqI)
  fix n assume n: "n < LENGTH(32)"
  consider "n < 8" | "8 \<le> n" "n < 16" | "16 \<le> n" "n < 24" | "24 \<le> n" by linarith
  then show "bit ((ucast (ucast w :: byte) :: u32) OR push_bit 8 (ucast (ucast (drop_bit 8 w) :: byte))
     OR push_bit 16 (ucast (ucast (drop_bit 16 w) :: byte))
     OR push_bit 24 (ucast (ucast (drop_bit 24 w) :: byte))) n = bit w n"
  proof cases
    case 1
    then show ?thesis using n by (auto simp: bit_simps)
  next
    case 2
    then have "8 + (n - 8) = n" by simp
    with 2 show ?thesis using n by (auto simp: bit_simps)
  next
    case 3
    then have "16 + (n - 16) = n" by simp
    with 3 show ?thesis using n by (auto simp: bit_simps)
  next
    case 4
    then have "24 + (n - 24) = n" by simp
    with 4 show ?thesis using n by (auto simp: bit_simps)
  qed
qed

lemma length_le32 [simp]: "length (le32 w) = 4"
  by (simp add: le32_def)

lemma rd32_le32: "rd32 (le32 w @ zs) 0 = w"
  using le32_bytes [of w] by (simp add: rd32_def le32_def)

lemma rd32_append: "rd32 (xs @ ys) (length xs + k) = rd32 ys k"
  by (simp add: rd32_def nth_append)

lemma rd32_prefix: "k + 4 \<le> length xs \<Longrightarrow> rd32 (xs @ ys) k = rd32 xs k"
  by (simp add: rd32_def nth_append)

lemma dirent_pack_eq:
  assumes "length (e_name e) = 32"
  shows "dirent_pack e = e_name e @ le32 (e_length e) @ le32 (e_first e) @ e_used e # replicate 23 0"
proof -
  have "replicate (Suc 23) (0::byte) = 0 # replicate 23 0" by (rule replicate_Suc)
  then have r: "replicate 24 (0::byte) = 0 # replicate 23 0" by simp
  show ?thesis using assms by (simp add: dirent_pack_def memcpy_def list_update_append r)
qed

lemma length_dirent_pack: "length (e_name e) = 32 \<Longrightarrow> length (dirent_pack e) = 64"
  by (simp add: dirent_pack_eq)

lemma dirent_unpack_pack:
  assumes "length (e_name e) = 32"
  shows "dirent_unpack (dirent_pack e @ zs) = e\<lparr>e_name := (e_name e)[31 := 0]\<rparr>"
proof -
  let ?n = "e_name e"
  let ?r1 = "le32 (e_first e) @ e_used e # replicate 23 0 @ zs"
  let ?r0 = "le32 (e_length e) @ ?r1"
  have p: "dirent_pack e @ zs = ?n @ ?r0" using assms by (simp add: dirent_pack_eq)
  have a: "rd32 (?n @ ?r0) 32 = e_length e"
    using rd32_append [of ?n ?r0 0] assms by (simp add: rd32_le32)
  have "rd32 ((?n @ le32 (e_length e)) @ ?r1) (length (?n @ le32 (e_length e)) + 0) = rd32 ?r1 0"
    by (rule rd32_append)
  then have b: "rd32 (?n @ ?r0) 36 = e_first e"
    using assms by (simp add: rd32_le32)
  have c: "(?n @ ?r0) ! 40 = e_used e" using assms by (simp add: nth_append)
  have d: "take MAX_NAME (?n @ ?r0) = ?n" using assms by (simp add: MAX_NAME_def)
  have "dirent_unpack (?n @ ?r0) = \<lparr>e_name = ?n[31 := 0], e_length = e_length e,
      e_first = e_first e, e_used = e_used e\<rparr>"
    unfolding dirent_unpack_def a b c d by (simp add: MAX_NAME_def)
  then show ?thesis unfolding p by (cases e) simp
qed

lemma dirent_unpack_prefix:
  "41 \<le> length xs \<Longrightarrow> dirent_unpack (xs @ ys) = dirent_unpack xs"
  by (simp add: dirent_unpack_def rd32_prefix nth_append MAX_NAME_def)

lemma cstr_stops:
  assumes "i < length xs" "xs ! i = 0"
  shows "length (cstr xs) \<le> i"
proof (rule ccontr)
  assume "\<not> length (cstr xs) \<le> i"
  then have i: "i < length (takeWhile (\<lambda>c. c \<noteq> 0) xs)" by (simp add: cstr_def)
  then have "takeWhile (\<lambda>c. c \<noteq> 0) xs ! i \<in> set (takeWhile (\<lambda>c. c \<noteq> 0) xs)" by (rule nth_mem)
  then have "takeWhile (\<lambda>c. c \<noteq> 0) xs ! i \<noteq> 0" by (auto dest: set_takeWhileD)
  moreover have "takeWhile (\<lambda>c. c \<noteq> 0) xs ! i = xs ! i" using i by (rule takeWhile_nth)
  ultimately show False using assms by simp
qed

lemma cstr_unpack_name: "length (cstr (e_name (dirent_unpack src))) \<le> 31"
proof -
  let ?xs = "(take MAX_NAME src)[MAX_NAME - 1 := 0]"
  have "length (cstr ?xs) \<le> 31"
  proof (cases "31 < length ?xs")
    case True
    then have "?xs ! 31 = 0" by (simp add: MAX_NAME_def)
    with True show ?thesis by (intro cstr_stops)
  next
    case False
    have "length (cstr ?xs) \<le> length ?xs" unfolding cstr_def by (rule length_takeWhile_le)
    with False show ?thesis by linarith
  qed
  then show ?thesis by (simp add: dirent_unpack_def)
qed

lemma strncmp_eq_short:
  assumes "length (cstr a) \<le> 31"
  shows "strncmp_eq a name MAX_NAME \<longleftrightarrow> cstr a = cstr name"
proof
  assume "strncmp_eq a name MAX_NAME"
  then have e: "cstr a = take 32 (cstr name)" using assms by (simp add: strncmp_eq_def MAX_NAME_def)
  then have "length (take 32 (cstr name)) \<le> 31" using assms by simp
  then have "length (cstr name) \<le> 31" by (simp add: min_def split: if_splits)
  with e show "cstr a = cstr name" by simp
next
  assume "cstr a = cstr name"
  then show "strncmp_eq a name MAX_NAME" by (simp add: strncmp_eq_def)
qed

lemma named_unpack:
  "e_used (dirent_unpack src) \<noteq> 0 \<and> strncmp_eq (e_name (dirent_unpack src)) name MAX_NAME
     \<longleftrightarrow> named (dirent_unpack src) name"
  using strncmp_eq_short [OF cstr_unpack_name] by (simp add: named_def)

lemma dir_sector_in_range:
  assumes "layout_ok L dk" "nblocks dk < 2 ^ 32" "slot < unat (dir_entries L)"
  shows "unat (dir_start L + of_nat (slot div 2)) = unat (dir_start L) + slot div 2"
    and "unat (dir_start L) + slot div 2 < nblocks dk"
proof -
  have "slot < 2 * unat (dir_sectors L)" using assms by (simp add: layout_ok_def)
  then have "slot div 2 < unat (dir_sectors L)" by simp
  then show b: "unat (dir_start L) + slot div 2 < nblocks dk"
    using assms by (simp add: layout_ok_def)
  then have "unat (dir_start L) + slot div 2 < 2 ^ 32" using assms(2) by linarith
  then show "unat (dir_start L + of_nat (slot div 2)) = unat (dir_start L) + slot div 2"
    by (rule unat_add_of_nat)
qed

lemma dir_read_entry_eq:
  assumes g: "geom_ok d dk" and lo: "layout_ok L dk" and s: "slot < unat (dir_entries L)"
  shows "dir_read_entry d L dk slot
           = (Some (dir_entry dk L slot), rd_disk dk (unat (dir_start L) + slot div 2))"
proof -
  have nb: "nblocks dk < 2 ^ 32" using g by (simp add: geom_ok_def img_ok_def)
  note r = dir_sector_in_range [OF lo nb s]
  show ?thesis
    using r by (simp add: dir_read_entry_def Let_def disk_read_idx_eq [OF g] dir_entry_def BLKSZ_def)
qed

lemma dir_find_by_name_loop_eq:
  assumes "geom_ok d dk" "layout_ok L dk" "\<forall>i \<in> set js. i < unat (dir_entries L)"
  shows "\<exists>dk'. same_img dk dk' \<and> dir_find_by_name_loop d L name js dk =
     ((case find (\<lambda>i. named (dir_entry dk L i) name) js of
         None \<Rightarrow> NotFound | Some i \<Rightarrow> Found (i, dir_entry dk L i)), dk')"
  using assms
proof (induction js arbitrary: dk)
  case Nil
  then show ?case by simp
next
  case (Cons i js)
  let ?dk1 = "rd_disk dk (unat (dir_start L) + i div 2)"
  have i: "i < unat (dir_entries L)" using Cons.prems by simp
  have rd: "dir_read_entry d L dk i = (Some (dir_entry dk L i), ?dk1)"
    using Cons.prems(1,2) i by (rule dir_read_entry_eq)
  have si: "same_img dk ?dk1" by simp
  show ?case
  proof (cases "named (dir_entry dk L i) name")
    case True
    then have "e_used (dir_entry dk L i) \<noteq> 0 \<and> strncmp_eq (e_name (dir_entry dk L i)) name MAX_NAME"
      unfolding dir_entry_def using named_unpack by blast
    with True rd si show ?thesis by auto
  next
    case False
    then have n: "\<not> (e_used (dir_entry dk L i) \<noteq> 0 \<and> strncmp_eq (e_name (dir_entry dk L i)) name MAX_NAME)"
      unfolding dir_entry_def using named_unpack by blast
    have g1: "geom_ok d ?dk1" using si Cons.prems(1) by (rule same_img_geom)
    have l1: "layout_ok L ?dk1" using si Cons.prems(2) by (rule same_img_layout)
    have "\<forall>i \<in> set js. i < unat (dir_entries L)" using Cons.prems(3) by simp
    from Cons.IH [OF g1 l1 this] obtain dk' where
      r: "same_img ?dk1 dk'" "dir_find_by_name_loop d L name js ?dk1 =
     ((case find (\<lambda>i. named (dir_entry ?dk1 L i) name) js of
         None \<Rightarrow> NotFound | Some i \<Rightarrow> Found (i, dir_entry ?dk1 L i)), dk')"
      by blast
    have e: "\<And>j. dir_entry ?dk1 L j = dir_entry dk L j" using si by (rule same_img_dir_entry)
    have "same_img dk dk'" using si r(1) by (rule same_img_trans)
    moreover have "dir_find_by_name_loop d L name (i # js) dk =
     ((case find (\<lambda>i. named (dir_entry dk L i) name) (i # js) of
         None \<Rightarrow> NotFound | Some i \<Rightarrow> Found (i, dir_entry dk L i)), dk')"
      using rd n False r(2) [unfolded e] by auto
    ultimately show ?thesis by blast
  qed
qed

lemma dir_find_by_name_eq:
  assumes "geom_ok d dk" "layout_ok L dk"
  shows "\<exists>dk'. same_img dk dk' \<and> dir_find_by_name d L dk name =
     ((case lookup dk L name of None \<Rightarrow> NotFound | Some i \<Rightarrow> Found (i, dir_entry dk L i)), dk')"
  unfolding dir_find_by_name_def lookup_def
  using assms by (intro dir_find_by_name_loop_eq) simp_all

lemma dir_find_free_loop_eq:
  assumes "geom_ok d dk" "layout_ok L dk" "\<forall>i \<in> set js. i < unat (dir_entries L)"
  shows "\<exists>dk'. same_img dk dk' \<and> dir_find_free_loop d L js dk =
     ((case find (\<lambda>i. e_used (dir_entry dk L i) = 0) js of
         None \<Rightarrow> NotFound | Some i \<Rightarrow> Found i), dk')"
  using assms
proof (induction js arbitrary: dk)
  case Nil
  then show ?case by simp
next
  case (Cons i js)
  let ?dk1 = "rd_disk dk (unat (dir_start L) + i div 2)"
  have i: "i < unat (dir_entries L)" using Cons.prems by simp
  have rd: "dir_read_entry d L dk i = (Some (dir_entry dk L i), ?dk1)"
    using Cons.prems(1,2) i by (rule dir_read_entry_eq)
  have si: "same_img dk ?dk1" by simp
  show ?case
  proof (cases "e_used (dir_entry dk L i) = 0")
    case True
    with rd si show ?thesis by auto
  next
    case False
    have g1: "geom_ok d ?dk1" using si Cons.prems(1) by (rule same_img_geom)
    have l1: "layout_ok L ?dk1" using si Cons.prems(2) by (rule same_img_layout)
    have "\<forall>i \<in> set js. i < unat (dir_entries L)" using Cons.prems(3) by simp
    from Cons.IH [OF g1 l1 this] obtain dk' where
      r: "same_img ?dk1 dk'" "dir_find_free_loop d L js ?dk1 =
     ((case find (\<lambda>i. e_used (dir_entry ?dk1 L i) = 0) js of
         None \<Rightarrow> NotFound | Some i \<Rightarrow> Found i), dk')"
      by blast
    have e: "\<And>j. dir_entry ?dk1 L j = dir_entry dk L j" using si by (rule same_img_dir_entry)
    have "same_img dk dk'" using si r(1) by (rule same_img_trans)
    moreover have "dir_find_free_loop d L (i # js) dk =
     ((case find (\<lambda>i. e_used (dir_entry dk L i) = 0) (i # js) of
         None \<Rightarrow> NotFound | Some i \<Rightarrow> Found i), dk')"
      using rd False r(2) [unfolded e] by auto
    ultimately show ?thesis by blast
  qed
qed

lemma dir_find_free_eq:
  assumes "geom_ok d dk" "layout_ok L dk"
  shows "\<exists>dk'. same_img dk dk' \<and> dir_find_free d L dk =
     ((case find (\<lambda>i. e_used (dir_entry dk L i) = 0) [0..<unat (dir_entries L)] of
         None \<Rightarrow> NotFound | Some i \<Rightarrow> Found i), dk')"
  unfolding dir_find_free_def
  using assms by (intro dir_find_free_loop_eq) simp_all

lemma entry_in_sector:
  assumes lb: "length blk = 128" and lp: "length p = 64" and a: "a < 2" and b: "b < 2"
  shows "dirent_unpack (drop (b * 64) (memcpy blk (a * 64) p))
           = (if b = a then dirent_unpack p else dirent_unpack (drop (b * 64) blk))"
proof -
  have ab: "(a = 0 \<or> a = 1) \<and> (b = 0 \<or> b = 1)" using a b by auto
  have m0: "memcpy blk 0 p = p @ drop 64 blk" using lp by (simp add: memcpy_def)
  have m1: "memcpy blk 64 p = take 64 blk @ p" using lp lb by (simp add: memcpy_def)
  have t: "dirent_unpack (take 64 blk @ p) = dirent_unpack blk"
  proof -
    have "dirent_unpack (take 64 blk @ p) = dirent_unpack (take 64 blk)"
      using lb by (intro dirent_unpack_prefix) simp
    also have "\<dots> = dirent_unpack (take 64 blk @ drop 64 blk)"
      using lb by (intro dirent_unpack_prefix [symmetric]) simp
    finally show ?thesis by simp
  qed
  have u: "dirent_unpack (p @ drop 64 blk) = dirent_unpack p"
    using lp by (intro dirent_unpack_prefix) simp
  show ?thesis using ab lb lp by (auto simp: m0 m1 t u)
qed

lemma dir_write_entry_eq:
  assumes g: "geom_ok d dk" and lo: "layout_ok L dk" and s: "slot < unat (dir_entries L)"
    and n: "length (e_name e) = 32"
  shows "\<exists>dk'. dir_write_entry d L dk slot e = (True, dk') \<and> geom_ok d dk'
           \<and> nblocks dk' = nblocks dk
           \<and> (\<forall>j. j \<noteq> unat (dir_start L) + slot div 2 \<longrightarrow> sector dk' j = sector dk j)
           \<and> sector dk' (unat (dir_start L) + slot div 2)
               = memcpy (sector dk (unat (dir_start L) + slot div 2)) ((slot mod 2) * 64) (dirent_pack e)
           \<and> dir_entry dk' L slot = e\<lparr>e_name := (e_name e)[31 := 0]\<rparr>
           \<and> (\<forall>i. i \<noteq> slot \<longrightarrow> dir_entry dk' L i = dir_entry dk L i)"
proof -
  have nb: "nblocks dk < 2 ^ 32" using g by (simp add: geom_ok_def img_ok_def)
  note r = dir_sector_in_range [OF lo nb s]
  let ?sec = "unat (dir_start L) + slot div 2"
  let ?dk1 = "rd_disk dk ?sec"
  let ?blk = "memcpy (sector dk ?sec) ((slot mod 2) * 64) (dirent_pack e)"
  let ?dk2 = "wr_disk ?dk1 ?sec ?blk"
  have si: "same_img dk ?dk1" by simp
  have g1: "geom_ok d ?dk1" using si g by (rule same_img_geom)
  have n1: "nblocks ?dk1 = nblocks dk" using si by (rule same_img_nblocks)
  have ls: "length (sector dk ?sec) = BLKSZ" using g r(2) by (rule sector_length)
  have lp: "length (dirent_pack e) = 64" using n by (rule length_dirent_pack)
  have "(slot mod 2) * 64 + length (dirent_pack e) \<le> length (sector dk ?sec)"
  proof -
    have "slot mod 2 \<le> 1" by simp
    then have "(slot mod 2) * 64 \<le> 64" by simp
    then show ?thesis using ls lp by (simp add: BLKSZ_def)
  qed
  then have lb: "length ?blk = BLKSZ" using ls by simp
  have i1: "?sec < nblocks ?dk1" using r(2) n1 by simp
  have w: "dir_write_entry d L dk slot e = (True, ?dk2)"
    using r i1 lb by (simp add: dir_write_entry_def Let_def disk_read_idx_eq [OF g]
        disk_write_idx_eq [OF g1 lb] BLKSZ_def)
  have g2: "geom_ok d ?dk2" and n2: "nblocks ?dk2 = nblocks ?dk1"
    using wr_disk_geom [OF g1 lb i1] by simp_all
  have sec: "\<And>j. sector ?dk2 j = (if j = ?sec then ?blk else sector dk j)"
    using wr_disk_sector [OF g1 lb i1] same_img_sector [OF si] by simp
  have ent: "\<And>i. dir_entry ?dk2 L i = (if i = slot then dirent_unpack (dirent_pack e) else dir_entry dk L i)"
  proof -
    fix i
    show "dir_entry ?dk2 L i = (if i = slot then dirent_unpack (dirent_pack e) else dir_entry dk L i)"
    proof (cases "i div 2 = slot div 2")
      case True
      have "dirent_unpack (drop ((i mod 2) * 64) ?blk)
           = (if i mod 2 = slot mod 2 then dirent_unpack (dirent_pack e)
              else dirent_unpack (drop ((i mod 2) * 64) (sector dk ?sec)))"
        using ls lp by (intro entry_in_sector) (simp_all add: BLKSZ_def)
      moreover have "i mod 2 = slot mod 2 \<longleftrightarrow> i = slot"
        using True by (metis div_mult_mod_eq)
      ultimately show ?thesis using True by (simp add: dir_entry_def sec)
    next
      case False
      then have "i \<noteq> slot" by auto
      with False show ?thesis by (simp add: dir_entry_def sec)
    qed
  qed
  have "dirent_unpack (dirent_pack e) = e\<lparr>e_name := (e_name e)[31 := 0]\<rparr>"
    using dirent_unpack_pack [OF n, of "[]"] by simp
  with w g2 n2 n1 sec ent show ?thesis by auto
qed

section \<open>The filesystem service: formatting\<close>

lemma disk_read_idx_img: "geom_ok d dk \<Longrightarrow> same_img dk (snd (disk_read_idx d dk idx))"
  by (simp add: disk_read_idx_eq)

lemma disk_write_idx_any:
  assumes g: "geom_ok d dk" and l: "length blk = BLKSZ"
  shows "img_ok d (snd (disk_write_idx d dk idx blk))
     \<and> nblocks (snd (disk_write_idx d dk idx blk)) = nblocks dk
     \<and> (fst (disk_write_idx d dk idx blk) \<longrightarrow> geom_ok d (snd (disk_write_idx d dk idx blk)))
     \<and> (\<not> fst (disk_write_idx d dk idx blk) \<longrightarrow> g_unread (snd (disk_write_idx d dk idx blk)) \<noteq> [])
     \<and> (j \<noteq> unat idx \<longrightarrow> sector (snd (disk_write_idx d dk idx blk)) j = sector dk j)"
proof (cases "unat idx < nblocks dk")
  case True
  note w = wr_disk_geom [OF g l True] wr_disk_sector [OF g l True, of j]
  show ?thesis using True w geom_img [OF w(1)] by (simp add: disk_write_idx_eq [OF g l])
next
  case False
  have "blk \<noteq> []" using l by (auto simp: BLKSZ_def)
  then show ?thesis using False geom_img [OF g] by (simp add: disk_write_idx_eq [OF g l])
qed

lemma write_zero_sectors_any:
  assumes "geom_ok d dk" and "\<forall>s \<in> set ss. unat (start + of_nat s) \<noteq> j"
  shows "img_ok d (snd (write_zero_sectors d start ss dk))
     \<and> nblocks (snd (write_zero_sectors d start ss dk)) = nblocks dk
     \<and> (fst (write_zero_sectors d start ss dk) \<longrightarrow> geom_ok d (snd (write_zero_sectors d start ss dk)))
     \<and> (\<not> fst (write_zero_sectors d start ss dk) \<longrightarrow> g_unread (snd (write_zero_sectors d start ss dk)) \<noteq> [])
     \<and> sector (snd (write_zero_sectors d start ss dk)) j = sector dk j"
  using assms
proof (induction ss arbitrary: dk)
  case Nil
  then show ?case by (simp add: geom_img)
next
  case (Cons s ss)
  have l: "length (replicate BLKSZ (0::byte)) = BLKSZ" by simp
  have ne: "j \<noteq> unat (start + of_nat s)" using Cons.prems(2) by auto
  obtain ok dk1 where e: "disk_write_idx d dk (start + of_nat s) (replicate BLKSZ 0) = (ok, dk1)"
    by (cases "disk_write_idx d dk (start + of_nat s) (replicate BLKSZ 0)")
  from disk_write_idx_any [OF Cons.prems(1) l, of "start + of_nat s" j] e ne
  have w: "img_ok d dk1" "nblocks dk1 = nblocks dk" "ok \<longrightarrow> geom_ok d dk1"
    "\<not> ok \<longrightarrow> g_unread dk1 \<noteq> []" "sector dk1 j = sector dk j"
    by simp_all
  show ?case
  proof (cases ok)
    case False
    then show ?thesis using e w by simp
  next
    case True
    then have g1: "geom_ok d dk1" using w(3) by simp
    have r: "\<forall>s \<in> set ss. unat (start + of_nat s) \<noteq> j" using Cons.prems(2) by simp
    from Cons.IH [OF g1 r] show ?thesis using True e w by simp
  qed
qed

lemma write_zero_sectors_fail:
  assumes "geom_ok d dk" "\<exists>s \<in> set ss. nblocks dk \<le> unat (start + of_nat s)"
  shows "\<not> fst (write_zero_sectors d start ss dk)"
  using assms
proof (induction ss arbitrary: dk)
  case Nil
  then show ?case by simp
next
  case (Cons s ss)
  have l: "length (replicate BLKSZ (0::byte)) = BLKSZ" by simp
  show ?case
  proof (cases "unat (start + of_nat s) < nblocks dk")
    case False
    then show ?thesis using Cons.prems(1) by (simp add: disk_write_idx_eq)
  next
    case True
    let ?dk1 = "wr_disk dk (unat (start + of_nat s)) (replicate BLKSZ 0)"
    have g1: "geom_ok d ?dk1" and n1: "nblocks ?dk1 = nblocks dk"
      using wr_disk_geom [OF Cons.prems(1) l True] by simp_all
    have "\<exists>s \<in> set ss. nblocks ?dk1 \<le> unat (start + of_nat s)"
      using Cons.prems(2) True n1 by auto
    from Cons.IH [OF g1 this] show ?thesis
      using True Cons.prems(1) by (simp add: disk_write_idx_eq)
  qed
qed

lemma write_zero_sectors_ok:
  assumes "geom_ok d dk" and "\<forall>s \<in> set ss. unat (start + of_nat s) < nblocks dk"
  shows "\<exists>dk'. write_zero_sectors d start ss dk = (True, dk') \<and> geom_ok d dk'
            \<and> nblocks dk' = nblocks dk
            \<and> (\<forall>j. sector dk' j = (if j \<in> (\<lambda>s. unat (start + of_nat s)) ` set ss
                                     then replicate BLKSZ 0 else sector dk j))"
  using assms
proof (induction ss arbitrary: dk)
  case Nil
  then show ?case by simp
next
  case (Cons s ss)
  let ?i = "unat (start + of_nat s)"
  have l: "length (replicate BLKSZ (0::byte)) = BLKSZ" by simp
  have i: "?i < nblocks dk" using Cons.prems(2) by simp
  let ?dk1 = "wr_disk dk ?i (replicate BLKSZ 0)"
  have g1: "geom_ok d ?dk1" and n1: "nblocks ?dk1 = nblocks dk"
    using wr_disk_geom [OF Cons.prems(1) l i] by simp_all
  have r1: "\<forall>s \<in> set ss. unat (start + of_nat s) < nblocks ?dk1"
    using Cons.prems(2) n1 by simp
  from Cons.IH [OF g1 r1] obtain dk' where
    r: "write_zero_sectors d start ss ?dk1 = (True, dk')" "geom_ok d dk'" "nblocks dk' = nblocks ?dk1"
       "\<forall>j. sector dk' j = (if j \<in> (\<lambda>s. unat (start + of_nat s)) ` set ss
                                     then replicate BLKSZ 0 else sector ?dk1 j)"
    by blast
  have "write_zero_sectors d start (s # ss) dk = (True, dk')"
    using r(1) i Cons.prems(1) by (simp add: disk_write_idx_eq)
  moreover have "\<forall>j. sector dk' j = (if j \<in> (\<lambda>s. unat (start + of_nat s)) ` set (s # ss)
                                     then replicate BLKSZ 0 else sector dk j)"
    using r(4) wr_disk_sector [OF Cons.prems(1) l i] by auto
  ultimately show ?case using r(2,3) n1 by simp
qed

lemma fat_load_sectors_img:
  "geom_ok d dk \<Longrightarrow> same_img dk (fst (snd (fat_load_sectors d L ss dk v idx)))"
proof (induction ss arbitrary: dk v idx)
  case Nil
  then show ?case by simp
next
  case (Cons s ss)
  let ?i = "unat (fat_start L + of_nat s)"
  show ?case
  proof (cases "?i < nblocks dk")
    case False
    then show ?thesis using Cons.prems by (simp add: disk_read_idx_eq)
  next
    case True
    have g1: "geom_ok d (rd_disk dk ?i)" using Cons.prems by (rule same_img_geom [OF same_img_rd])
    obtain v1 idx1 where e: "fat_load_entries (sector dk ?i) (unat (total_blocks L)) [0..<BLKSZ div 4] v idx = (v1, idx1)"
      by (cases "fat_load_entries (sector dk ?i) (unat (total_blocks L)) [0..<BLKSZ div 4] v idx")
    have "same_img (rd_disk dk ?i) (fst (snd (fat_load_sectors d L ss (rd_disk dk ?i) v1 idx1)))"
      using g1 by (rule Cons.IH)
    then have "same_img dk (fst (snd (fat_load_sectors d L ss (rd_disk dk ?i) v1 idx1)))"
      using same_img_rd same_img_trans by blast
    then show ?thesis using True e Cons.prems by (simp add: disk_read_idx_eq)
  qed
qed

lemma fat_load_img: "geom_ok d dk \<Longrightarrow> same_img dk (fst (snd (fat_load d L dk fc)))"
  using fat_load_sectors_img [of d dk L "[0..<unat (fat_sectors L)]" "replicate (unat (total_blocks L)) 0" 0]
  by (auto simp: fat_load_def split: prod.splits)

lemma fat_flush_sectors_any:
  assumes "geom_ok d dk" and "\<forall>s \<in> set ss. unat (fat_start L + of_nat s) \<noteq> j"
  shows "img_ok d (snd (fat_flush_sectors d L ss dk v idx))
     \<and> nblocks (snd (fat_flush_sectors d L ss dk v idx)) = nblocks dk
     \<and> (fst (fat_flush_sectors d L ss dk v idx) \<longrightarrow> geom_ok d (snd (fat_flush_sectors d L ss dk v idx)))
     \<and> (\<not> fst (fat_flush_sectors d L ss dk v idx) \<longrightarrow> g_unread (snd (fat_flush_sectors d L ss dk v idx)) \<noteq> [])
     \<and> sector (snd (fat_flush_sectors d L ss dk v idx)) j = sector dk j"
  using assms
proof (induction ss arbitrary: dk idx)
  case Nil
  then show ?case by (simp add: geom_img)
next
  case (Cons s ss)
  obtain blk idx1 where e: "fat_flush_entries (unat (total_blocks L)) [0..<BLKSZ div 4] v (replicate BLKSZ 0) idx = (blk, idx1)"
    by (cases "fat_flush_entries (unat (total_blocks L)) [0..<BLKSZ div 4] v (replicate BLKSZ 0) idx")
  have lb: "length blk = BLKSZ"
    using fat_flush_entries_length [of "replicate BLKSZ 0" "[0..<BLKSZ div 4]" "unat (total_blocks L)" v idx] e
    by (simp add: BLKSZ_def)
  have ne: "j \<noteq> unat (fat_start L + of_nat s)" using Cons.prems(2) by auto
  obtain ok dk1 where e2: "disk_write_idx d dk (fat_start L + of_nat s) blk = (ok, dk1)"
    by (cases "disk_write_idx d dk (fat_start L + of_nat s) blk")
  from disk_write_idx_any [OF Cons.prems(1) lb, of "fat_start L + of_nat s" j] e2 ne
  have w: "img_ok d dk1" "nblocks dk1 = nblocks dk" "ok \<longrightarrow> geom_ok d dk1"
    "\<not> ok \<longrightarrow> g_unread dk1 \<noteq> []" "sector dk1 j = sector dk j"
    by simp_all
  show ?case
  proof (cases ok)
    case False
    then show ?thesis using e e2 w by simp
  next
    case True
    then have g1: "geom_ok d dk1" using w(3) by simp
    have r: "\<forall>s \<in> set ss. unat (fat_start L + of_nat s) \<noteq> j" using Cons.prems(2) by simp
    from Cons.IH [OF g1 r, of idx1] show ?thesis using True e e2 w by simp
  qed
qed

lemma fat_flush_any:
  assumes "geom_ok d dk" and "\<forall>s < unat (fat_sectors L). unat (fat_start L + of_nat s) \<noteq> j"
  shows "img_ok d (snd (fat_flush d L dk fc))
     \<and> nblocks (snd (fat_flush d L dk fc)) = nblocks dk
     \<and> (fst (fat_flush d L dk fc) \<longrightarrow> geom_ok d (snd (fat_flush d L dk fc)))
     \<and> (\<not> fst (fat_flush d L dk fc) \<longrightarrow> g_unread (snd (fat_flush d L dk fc)) \<noteq> [])
     \<and> sector (snd (fat_flush d L dk fc)) j = sector dk j"
proof (cases "fat_loaded fc")
  case False
  then show ?thesis using assms(1) by (simp add: fat_flush_def geom_img)
next
  case True
  have "\<forall>s \<in> set [0..<unat (fat_sectors L)]. unat (fat_start L + of_nat s) \<noteq> j"
    using assms(2) by simp
  from fat_flush_sectors_any [OF assms(1) this, of "fat_v fc" 0] True
  show ?thesis by (simp add: fat_flush_def)
qed

lemma length_le64 [simp]: "length (le64 w) = 8"
  by (simp add: le64_def)

lemma length_super_pack [simp]: "length (super_pack d L) = BLKSZ"
  by (simp add: super_pack_def bytes_def BLKSZ_def)

lemma compute_layout_dir:
  shows "unat (fat_sectors (compute_layout d)) < 2 ^ 25"
    and "fat_start (compute_layout d) = 1"
    and "unat (dir_start (compute_layout d)) = 1 + unat (fat_sectors (compute_layout d))"
    and "dir_sectors (compute_layout d) = 32"
    and "dir_entries (compute_layout d) = 64"
    and "total_blocks (compute_layout d) = total_blocks_of d"
proof -
  define x :: u32 where "x = total_blocks_of d * 4 + 128 - 1"
  have L: "compute_layout d = \<lparr>total_blocks = total_blocks_of d, fat_start = 1, fat_sectors = x div 128,
          dir_start = 1 + x div 128, dir_sectors = 32, dir_entries = 64\<rparr>"
    by (simp add: compute_layout_def Let_def BLKSZ_def x_def)
  have "unat x < 2 ^ 32" using unsigned_less [of x] by simp
  then have "unat x div 128 < 2 ^ 25" by (intro less_mult_imp_div_less) simp
  then have b: "unat (x div 128) < 2 ^ 25" by (simp add: unat_div)
  then show "unat (fat_sectors (compute_layout d)) < 2 ^ 25" by (simp add: L)
  have "unat (1 + x div 128) = unat (1 :: u32) + unat (x div 128)"
    using b by (intro unat_add_u32) simp
  then show "unat (dir_start (compute_layout d)) = 1 + unat (fat_sectors (compute_layout d))"
    by (simp add: L)
  show "fat_start (compute_layout d) = 1" "dir_sectors (compute_layout d) = 32"
    "dir_entries (compute_layout d) = 64" "total_blocks (compute_layout d) = total_blocks_of d"
    by (simp_all add: L)
qed

lemma compute_layout_dir_sector:
  assumes "s < 32"
  shows "unat (dir_start (compute_layout d) + of_nat s) = unat (dir_start (compute_layout d)) + s"
proof -
  have "unat (dir_start (compute_layout d)) + s < 2 ^ 32"
    using compute_layout_dir(1,3) [of d] assms by simp
  then show ?thesis by (rule unat_add_of_nat)
qed

lemma nblocks_pos: "geom_ok d dk \<Longrightarrow> 0 < nblocks dk"
  by (simp add: geom_ok_def img_ok_def nblocks_def)

lemma compute_layout_fat_sector:
  assumes "s < unat (fat_sectors (compute_layout d))"
  shows "unat (fat_start (compute_layout d) + of_nat s) = 1 + s"
proof -
  have "unat (fat_start (compute_layout d)) + s < 2 ^ 32"
    using compute_layout_dir(1,2) [of d] assms by simp
  then have "unat (fat_start (compute_layout d) + of_nat s) = unat (fat_start (compute_layout d)) + s"
    by (rule unat_add_of_nat)
  then show ?thesis by (simp add: compute_layout_dir(2))
qed

text \<open>
  What format leaves whatever its outcome: the superblock is in sector 0; a format
  that fails has had a write rejected and leaves the payload of that write unread on
  the connection; and format fails when the disk is too small for the metadata.
\<close>

lemma format_fs_any:
  assumes g: "geom_ok d dk"
  shows "img_ok d (fst (snd (format_fs d dk fc)))
     \<and> nblocks (fst (snd (format_fs d dk fc))) = nblocks dk
     \<and> sector (fst (snd (format_fs d dk fc))) 0 = super_pack d (compute_layout d)
     \<and> (\<not> fst (format_fs d dk fc) \<longrightarrow> g_unread (fst (snd (format_fs d dk fc))) \<noteq> [])
     \<and> (nblocks dk < unat (dir_start (compute_layout d)) + unat (dir_sectors (compute_layout d))
          \<longrightarrow> \<not> fst (format_fs d dk fc))"
proof -
  let ?L = "compute_layout d"
  let ?sp = "super_pack d ?L"
  let ?small = "nblocks dk < unat (dir_start ?L) + unat (dir_sectors ?L)"
  have n0: "unat (0 :: u32) < nblocks dk" using nblocks_pos [OF g] by simp
  define dk1 where "dk1 = wr_disk dk 0 ?sp"
  have s0: "disk_write_idx d dk 0 ?sp = (True, dk1)"
    using disk_write_idx_eq [OF g length_super_pack, of 0 d ?L] n0 by (simp add: dk1_def)
  have g1: "geom_ok d dk1" and n1: "nblocks dk1 = nblocks dk" and z1: "sector dk1 0 = ?sp"
    using wr_disk_geom [OF g length_super_pack, of 0 d ?L] wr_disk_sector [OF g length_super_pack, of 0 d ?L 0]
      n0 by (simp_all add: dk1_def)
  have fsec: "\<forall>s \<in> set [0..<unat (fat_sectors ?L)]. unat (fat_start ?L + of_nat s) \<noteq> 0"
    using compute_layout_fat_sector [of _ d] by simp
  obtain ok1 dk2 where s1: "write_zero_sectors d (fat_start ?L) [0..<unat (fat_sectors ?L)] dk1 = (ok1, dk2)"
    by (cases "write_zero_sectors d (fat_start ?L) [0..<unat (fat_sectors ?L)] dk1")
  from write_zero_sectors_any [OF g1 fsec] s1 n1 z1
  have a1: "img_ok d dk2" "nblocks dk2 = nblocks dk" "ok1 \<longrightarrow> geom_ok d dk2"
    "\<not> ok1 \<longrightarrow> g_unread dk2 \<noteq> []" "sector dk2 0 = ?sp"
    by simp_all
  show ?thesis
  proof (cases ok1)
    case False
    then have "format_fs d dk fc = (False, dk2, ?L, fc)"
      using s0 s1 by (simp add: format_fs_def Let_def)
    then show ?thesis using a1 False by simp
  next
    case ok1: True
    then have g2: "geom_ok d dk2" using a1(3) by simp
    have r2: "\<forall>s \<in> set [0..<unat (fat_sectors ?L)]. unat (fat_start ?L + of_nat s) < nblocks dk2"
    proof (rule ccontr)
      assume "\<not> (\<forall>s \<in> set [0..<unat (fat_sectors ?L)]. unat (fat_start ?L + of_nat s) < nblocks dk2)"
      then have "\<exists>s \<in> set [0..<unat (fat_sectors ?L)]. nblocks dk1 \<le> unat (fat_start ?L + of_nat s)"
        using a1(2) n1 by (auto simp: not_less)
      from write_zero_sectors_fail [OF g1 this] s1 ok1 show False by simp
    qed
    obtain dk3 fc1 where s2: "fat_load d ?L dk2 fc = (True, dk3, fc1)" and i3: "same_img dk2 dk3"
    proof (cases "fat_loaded fc")
      case True
      then have "fat_load d ?L dk2 fc = (True, dk2, fc)" by (simp add: fat_load_def)
      then show ?thesis using that by simp
    next
      case False
      from fat_load_sectors_ok [OF g2 r2, of "replicate (unat (total_blocks ?L)) 0" 0]
      obtain dk' v' where "fat_load_sectors d ?L [0..<unat (fat_sectors ?L)] dk2
            (replicate (unat (total_blocks ?L)) 0) 0 = (True, dk', v')" "same_img dk2 dk'"
        by auto
      then show ?thesis using that False by (simp add: fat_load_def)
    qed
    have g3: "geom_ok d dk3" using i3 g2 by (rule same_img_geom)
    have n3: "nblocks dk3 = nblocks dk" using same_img_nblocks [OF i3] a1(2) by simp
    have z3: "sector dk3 0 = ?sp" using same_img_sector [OF i3] a1(5) by simp
    define fc2 where "fc2 = reserve_meta (unat (dir_start ?L + dir_sectors ?L - 1)) (unat (total_blocks ?L))
                 [0..<unat (total_blocks ?L)] fc1"
    obtain ok3 dk4 where s3: "fat_flush d ?L dk3 fc2 = (ok3, dk4)"
      by (cases "fat_flush d ?L dk3 fc2")
    have fsec': "\<forall>s < unat (fat_sectors ?L). unat (fat_start ?L + of_nat s) \<noteq> 0"
      using compute_layout_fat_sector [of _ d] by simp
    from fat_flush_any [OF g3 fsec', of fc2] s3 n3 z3
    have a3: "img_ok d dk4" "nblocks dk4 = nblocks dk" "ok3 \<longrightarrow> geom_ok d dk4"
      "\<not> ok3 \<longrightarrow> g_unread dk4 \<noteq> []" "sector dk4 0 = ?sp"
      by simp_all
    show ?thesis
    proof (cases ok3)
      case False
      then have "format_fs d dk fc = (False, dk4, ?L, fc2)"
        using s0 s1 ok1 s2 s3 by (simp add: format_fs_def Let_def fc2_def)
      then show ?thesis using a3 False by simp
    next
      case ok3: True
      then have g4: "geom_ok d dk4" using a3(3) by simp
      have dsec: "\<forall>s \<in> set [0..<unat (dir_sectors ?L)]. unat (dir_start ?L + of_nat s) \<noteq> 0"
        using compute_layout_dir_sector [of _ d] compute_layout_dir(3,4) [of d] by simp
      obtain ok4 dk5 where s4: "write_zero_sectors d (dir_start ?L) [0..<unat (dir_sectors ?L)] dk4 = (ok4, dk5)"
        by (cases "write_zero_sectors d (dir_start ?L) [0..<unat (dir_sectors ?L)] dk4")
      from write_zero_sectors_any [OF g4 dsec] s4 a3
      have a4: "img_ok d dk5" "nblocks dk5 = nblocks dk" "\<not> ok4 \<longrightarrow> g_unread dk5 \<noteq> []"
        "sector dk5 0 = ?sp"
        by simp_all
      have f: "format_fs d dk fc = (ok4, dk5, ?L, fc2)"
        using s0 s1 ok1 s2 s3 ok3 s4 by (simp add: format_fs_def Let_def fc2_def)
      have "?small \<longrightarrow> \<not> ok4"
      proof
        assume small: ?small
        have "nblocks dk4 \<le> unat (dir_start ?L + of_nat 31)"
          using small a3(2) compute_layout_dir(4) [of d] compute_layout_dir_sector [of 31 d] by simp
        then have "\<exists>s \<in> set [0..<unat (dir_sectors ?L)]. nblocks dk4 \<le> unat (dir_start ?L + of_nat s)"
          using compute_layout_dir(4) [of d] by (intro bexI [of _ 31]) simp_all
        from write_zero_sectors_fail [OF g4 this] s4 show "\<not> ok4" by simp
      qed
      then show ?thesis using f a4 by simp
    qed
  qed
qed

lemma format_fs_fail:
  assumes g: "geom_ok d dk"
    and small: "nblocks dk < unat (dir_start (compute_layout d)) + unat (dir_sectors (compute_layout d))"
  shows "\<not> fst (format_fs d dk fc)"
  using format_fs_any [OF g, of fc] small by simp

lemma rd32_zero: "k + 3 < n \<Longrightarrow> rd32 (replicate n 0) k = 0"
  by (simp add: rd32_def)

lemma replicate_update_same: "(replicate n x)[i := x] = replicate n x"
  by (induction n arbitrary: i) (auto split: nat.split)

lemma fat_load_entries_zero:
  "\<forall>i \<in> set js. i < 32 \<Longrightarrow>
   fst (fat_load_entries (replicate BLKSZ 0) tb js (replicate n 0) idx) = replicate n 0"
proof (induction js arbitrary: idx)
  case Nil
  then show ?case by simp
next
  case (Cons i js)
  have "i < 32" using Cons.prems by simp
  then have "rd32 (replicate BLKSZ 0) (i * 4) = 0" by (intro rd32_zero) (simp add: BLKSZ_def)
  then show ?case using Cons by (simp add: replicate_update_same)
qed

lemma fat_load_sectors_zero:
  assumes "geom_ok d dk"
    and "\<forall>s \<in> set ss. unat (fat_start L + of_nat s) < nblocks dk
           \<and> sector dk (unat (fat_start L + of_nat s)) = replicate BLKSZ 0"
  shows "snd (snd (fat_load_sectors d L ss dk (replicate n 0) idx)) = replicate n 0"
  using assms
proof (induction ss arbitrary: dk idx)
  case Nil
  then show ?case by simp
next
  case (Cons s ss)
  let ?i = "unat (fat_start L + of_nat s)"
  let ?dk1 = "rd_disk dk ?i"
  have i: "?i < nblocks dk" and z: "sector dk ?i = replicate BLKSZ 0" using Cons.prems(2) by simp_all
  obtain v1 idx1 where e: "fat_load_entries (replicate BLKSZ 0) (unat (total_blocks L)) [0..<BLKSZ div 4] (replicate n 0) idx = (v1, idx1)"
    by (cases "fat_load_entries (replicate BLKSZ 0) (unat (total_blocks L)) [0..<BLKSZ div 4] (replicate n 0) idx")
  have v1: "v1 = replicate n 0"
    using fat_load_entries_zero [of "[0..<BLKSZ div 4]" "unat (total_blocks L)" n idx] e
    by (simp add: BLKSZ_def)
  have g1: "geom_ok d ?dk1" using Cons.prems(1) by (rule same_img_geom [OF same_img_rd])
  have r1: "\<forall>s \<in> set ss. unat (fat_start L + of_nat s) < nblocks ?dk1
           \<and> sector ?dk1 (unat (fat_start L + of_nat s)) = replicate BLKSZ 0"
    using Cons.prems(2) by (simp add: same_img_nblocks [OF same_img_rd] same_img_sector [OF same_img_rd])
  from Cons.IH [OF g1 r1, of idx1] show ?case
    using i z e v1 Cons.prems(1) by (simp add: disk_read_idx_eq)
qed

lemma reserve_meta_nth:
  assumes "tb < 2 ^ 32" "length (fat_v fc) = tb"
  shows "length (fat_v (reserve_meta m tb [k..<tb] fc)) = tb
     \<and> fat_loaded (reserve_meta m tb [k..<tb] fc) = fat_loaded fc
     \<and> (\<forall>j < tb. fat_v (reserve_meta m tb [k..<tb] fc) ! j
           = (if k \<le> j \<and> j \<le> m then FAT_RESERVED else fat_v fc ! j))"
  using assms(2)
proof (induction "tb - k" arbitrary: k fc)
  case 0
  then show ?case by simp
next
  case (Suc n)
  then have k: "k < tb" by simp
  then have u: "[k..<tb] = k # [Suc k..<tb]" by (rule upt_conv_Cons)
  show ?case
  proof (cases "k \<le> m")
    case False
    then show ?thesis using u Suc.prems by auto
  next
    case True
    let ?fc1 = "fat_set fc (of_nat k) FAT_RESERVED"
    have "k < 2 ^ 32" using k assms(1) by simp
    then have uk: "unat (of_nat k :: u32) = k" by (simp add: unat_of_nat)
    have f1: "fat_v ?fc1 = (fat_v fc)[k := FAT_RESERVED]" "fat_loaded ?fc1 = fat_loaded fc"
      by (simp_all add: fat_set_def uk)
    have n: "n = tb - Suc k" using Suc.hyps(2) by simp
    have l1: "length (fat_v ?fc1) = tb" using Suc.prems f1 by simp
    note ih = Suc.hyps(1) [OF n l1]
    have "reserve_meta m tb [k..<tb] fc = reserve_meta m tb [Suc k..<tb] ?fc1"
      using True k u by simp
    then show ?thesis using ih f1 Suc.prems True by (auto simp: nth_list_update)
  qed
qed

lemma dirent_unpack_zero:
  assumes "41 \<le> n"
  shows "dirent_unpack (replicate n 0) = blank"
proof -
  have a: "take 32 (replicate n (0::byte)) = replicate 32 0" using assms by (simp add: min_def)
  have b: "rd32 (replicate n 0) 32 = 0" "rd32 (replicate n 0) 36 = 0"
    using assms by (simp_all add: rd32_zero)
  have c: "replicate n (0::byte) ! 40 = 0" using assms by simp
  show ?thesis
    unfolding dirent_unpack_def blank_def MAX_NAME_def a b c
    by (simp add: replicate_update_same)
qed

lemma unat_total_blocks_geom:
  assumes g: "geom_ok d dk"
  shows "unat (total_blocks_of d) = nblocks dk"
proof -
  define C where "C = nat (g_cyl dk)"
  define S where "S = nat (g_sec dk)"
  define N where "N = C * S"
  have cs: "d_cyl d = int C" "d_sec d = int S"
    using g by (simp_all add: geom_ok_def img_ok_def C_def S_def)
  have "nblocks dk < 2 ^ 32" using g by (simp add: geom_ok_def img_ok_def)
  then have N: "N < 2 ^ 32" by (simp add: N_def nblocks_def C_def S_def)
  have e: "d_cyl d * d_sec d = int N" unfolding cs N_def by simp
  have "int N < 2 ^ 32" using N by (metis of_nat_less_numeral_power_cancel_iff)
  then have "unat (word_of_int (int N) :: u32) = nat (int N)"
    by (intro unat_word_of_int_u32) simp_all
  then have "unat (total_blocks_of d) = N" unfolding total_blocks_of_def e by simp
  then show ?thesis by (simp add: N_def nblocks_def C_def S_def)
qed

lemma format_fs_ok:
  assumes g: "geom_ok d dk"
    and big: "unat (dir_start (compute_layout d)) + 32 \<le> nblocks dk"
  shows "\<exists>dk' fc'. format_fs d dk fat_init = (True, dk', compute_layout d, fc')
     \<and> geom_ok d dk' \<and> layout_ok (compute_layout d) dk'
     \<and> fat_loaded fc' \<and> length (fat_v fc') = nblocks dk
     \<and> (\<forall>j < nblocks dk. fat_v fc' ! j
           = (if j < unat (dir_start (compute_layout d)) + 32 then FAT_RESERVED else FAT_FREE))
     \<and> (\<forall>i < 64. dir_entry dk' (compute_layout d) i = blank)"
proof -
  define L where "L = compute_layout d"
  define N where "N = nblocks dk"
  define ds where "ds = unat (dir_start L)"
  define fn where "fn = unat (fat_sectors L)"
  have L1: "fat_start L = 1" "ds = 1 + fn" "dir_sectors L = 32" "dir_entries L = 64"
    and Lt: "unat (total_blocks L) = N"
    using compute_layout_dir [of d] unat_total_blocks_geom [OF g]
    by (simp_all add: L_def ds_def fn_def N_def)
  have big': "ds + 32 \<le> N" using big by (simp add: ds_def L_def N_def)
  have nb: "N < 2 ^ 32" using g by (simp add: geom_ok_def img_ok_def N_def)
  \<comment> \<open>the superblock\<close>
  have "unat (0 :: u32) < nblocks dk" using big' by (simp add: N_def)
  then have s0: "disk_write_idx d dk 0 (super_pack d L) = (True, wr_disk dk 0 (super_pack d L))"
    using disk_write_idx_eq [OF g length_super_pack, of 0 d L] by simp
  define dk1 where "dk1 = wr_disk dk 0 (super_pack d L)"
  have g1: "geom_ok d dk1" and n1: "nblocks dk1 = N"
    using wr_disk_geom [OF g length_super_pack, of 0 d L] big' by (simp_all add: dk1_def N_def)
  \<comment> \<open>the FAT sectors are zeroed\<close>
  have fs: "\<And>s. s < fn \<Longrightarrow> unat (fat_start L + of_nat s) = 1 + s"
  proof -
    fix s assume "s < fn"
    then have "unat (fat_start L) + s < 2 ^ 32" using L1 big' nb by simp
    then have "unat (fat_start L + of_nat s) = unat (fat_start L) + s" by (rule unat_add_of_nat)
    then show "unat (fat_start L + of_nat s) = 1 + s" using L1 by simp
  qed
  have r1: "\<forall>s \<in> set [0..<unat (fat_sectors L)]. unat (fat_start L + of_nat s) < nblocks dk1"
    using fs L1 big' n1 by (simp add: fn_def)
  from write_zero_sectors_ok [OF g1 r1] obtain dk2 where
    s1: "write_zero_sectors d (fat_start L) [0..<unat (fat_sectors L)] dk1 = (True, dk2)"
    and g2: "geom_ok d dk2" and n2: "nblocks dk2 = N"
    and z2: "\<forall>j. sector dk2 j = (if j \<in> (\<lambda>s. unat (fat_start L + of_nat s)) ` set [0..<unat (fat_sectors L)]
                                     then replicate BLKSZ 0 else sector dk1 j)"
    using n1 by auto
  \<comment> \<open>the cache is loaded from the zeroed sectors\<close>
  have r2: "\<forall>s \<in> set [0..<unat (fat_sectors L)]. unat (fat_start L + of_nat s) < nblocks dk2"
    using r1 n1 n2 by simp
  from fat_load_sectors_ok [OF g2 r2, of "replicate (unat (total_blocks L)) 0" 0] obtain dk3 v3 where
    s2: "fat_load_sectors d L [0..<unat (fat_sectors L)] dk2 (replicate (unat (total_blocks L)) 0) 0 = (True, dk3, v3)"
    and i3: "same_img dk2 dk3"
    by auto
  have "\<forall>s \<in> set [0..<unat (fat_sectors L)]. unat (fat_start L + of_nat s) < nblocks dk2
           \<and> sector dk2 (unat (fat_start L + of_nat s)) = replicate BLKSZ 0"
    using r2 z2 by auto
  from fat_load_sectors_zero [OF g2 this, of "unat (total_blocks L)" 0] s2
  have v3: "v3 = replicate N 0" using Lt by simp
  define fc1 where "fc1 = \<lparr>fat_v = replicate N (0::u32), fat_loaded = True\<rparr>"
  have s2': "fat_load d L dk2 fat_init = (True, dk3, fc1)"
    using s2 v3 by (simp add: fat_load_def fat_init_def fc1_def)
  have g3: "geom_ok d dk3" using i3 g2 by (rule same_img_geom)
  have n3: "nblocks dk3 = N" using same_img_nblocks [OF i3] n2 by simp
  \<comment> \<open>the metadata blocks are reserved\<close>
  have "dir_start L + dir_sectors L - 1 = 31 + dir_start L" using L1 by simp
  moreover have "unat (31 + dir_start L) = ds + 31"
    using big' nb by (subst unat_add_u32) (simp_all add: ds_def)
  ultimately have me: "unat (dir_start L + dir_sectors L - 1) = ds + 31" by (simp only:)
  define fc2 where "fc2 = reserve_meta (ds + 31) N [0..<N] fc1"
  have "length (fat_v fc1) = N" by (simp add: fc1_def)
  from reserve_meta_nth [OF nb this, of "ds + 31" 0]
  have f2: "length (fat_v fc2) = N" "fat_loaded fc2"
    "\<forall>j < N. fat_v fc2 ! j = (if j < ds + 32 then FAT_RESERVED else FAT_FREE)"
    by (auto simp: fc2_def fc1_def FAT_FREE_def)
  \<comment> \<open>the cache is flushed\<close>
  have lo3: "layout_ok L dk3" using L1 Lt big' n3 by (simp add: layout_ok_def ds_def fn_def)
  from fat_flush_ok [OF g3 lo3, of fc2] obtain dk4 where
    s3: "fat_flush d L dk3 fc2 = (True, dk4)" and g4: "geom_ok d dk4" and n4: "nblocks dk4 = N"
    using n3 by auto
  \<comment> \<open>the directory sectors are zeroed\<close>
  have dsec: "\<And>s. s < 32 \<Longrightarrow> unat (dir_start L + of_nat s) = ds + s"
    using compute_layout_dir_sector [of _ d] by (simp add: L_def ds_def)
  have r4: "\<forall>s \<in> set [0..<unat (dir_sectors L)]. unat (dir_start L + of_nat s) < nblocks dk4"
    using dsec L1 big' n4 by simp
  from write_zero_sectors_ok [OF g4 r4] obtain dk5 where
    s4: "write_zero_sectors d (dir_start L) [0..<unat (dir_sectors L)] dk4 = (True, dk5)"
    and g5: "geom_ok d dk5" and n5: "nblocks dk5 = N"
    and z5: "\<forall>j. sector dk5 j = (if j \<in> (\<lambda>s. unat (dir_start L + of_nat s)) ` set [0..<unat (dir_sectors L)]
                                     then replicate BLKSZ 0 else sector dk4 j)"
    using n4 by auto
  have ent: "\<forall>i < 64. dir_entry dk5 L i = blank"
  proof (intro allI impI)
    fix i :: nat assume i: "i < 64"
    then have h: "i div 2 < 32" by simp
    then have "ds + i div 2 \<in> (\<lambda>s. unat (dir_start L + of_nat s)) ` set [0..<unat (dir_sectors L)]"
      using dsec [OF h] L1 by (intro image_eqI [of _ _ "i div 2"]) simp_all
    then have "sector dk5 (ds + i div 2) = replicate BLKSZ 0" using z5 by simp
    then have "dir_entry dk5 L i = dirent_unpack (replicate (BLKSZ - (i mod 2) * 64) 0)"
      by (simp add: dir_entry_def ds_def)
    moreover have "(i mod 2) * 64 \<le> 64" by simp
    then have "41 \<le> BLKSZ - (i mod 2) * 64" by (simp add: BLKSZ_def)
    ultimately show "dir_entry dk5 L i = blank" by (simp add: dirent_unpack_zero)
  qed
  have lo5: "layout_ok L dk5" using L1 Lt big' n5 by (simp add: layout_ok_def ds_def fn_def)
  have "format_fs d dk fat_init = (True, dk5, L, fc2)"
    using s0 s1 s2' s3 s4 me Lt
    by (simp add: format_fs_def Let_def L_def [symmetric] dk1_def [symmetric] fc2_def)
  with g5 lo5 f2 ent show ?thesis
    unfolding L_def [symmetric] N_def [symmetric] ds_def [symmetric] by blast
qed

lemma cmd_format_ok:
  assumes g: "geom_ok d dk"
    and big: "unat (dir_start (compute_layout d)) + 32 \<le> nblocks dk"
  shows "\<exists>dk' G'. cmd_format d dk G = (reply ''0'', dk', G') \<and> fs_ok d dk' G'
     \<and> G_L G' = compute_layout d \<and> fat_loaded (G_fat G')
     \<and> (\<forall>j < nblocks dk'. fat_v (G_fat G') ! j
           = (if j < unat (dir_start (compute_layout d)) + 32 then FAT_RESERVED else FAT_FREE))
     \<and> (\<forall>i < 64. dir_entry dk' (compute_layout d) i = blank)"
proof -
  from format_fs_ok [OF assms] obtain dk' fc' where
    f: "format_fs d dk fat_init = (True, dk', compute_layout d, fc')"
     "geom_ok d dk'" "layout_ok (compute_layout d) dk'"
     "fat_loaded fc'" "length (fat_v fc') = nblocks dk"
     "\<forall>j < nblocks dk. fat_v fc' ! j
           = (if j < unat (dir_start (compute_layout d)) + 32 then FAT_RESERVED else FAT_FREE)"
     "\<forall>i < 64. dir_entry dk' (compute_layout d) i = blank"
    by blast
  have n: "nblocks dk' = nblocks dk"
    using f(3) unat_total_blocks_geom [OF g] compute_layout_dir(6) [of d] by (simp add: layout_ok_def)
  show ?thesis
    using f n by (simp add: cmd_format_def fs_ok_def)
qed

lemma disk_main_geom:
  assumes "disk_main C S T f = Some dk" "d_cyl d = C" "d_sec d = S" "nat C * nat S < 2 ^ 32"
  shows "geom_ok d dk"
proof -
  define N where "N = nat C * nat S"
  have "N < 2 ^ 32" using assms(4) by (simp add: N_def)
  then have "N * 128 < 2 ^ 64" by simp
  then have "nat C * nat S * BLKSZ < 2 ^ 64" by (simp add: N_def BLKSZ_def)
  with disk_main_ok [OF assms(1)] have "disk_ok dk" "g_cyl dk = C" "g_sec dk = S" "g_unread dk = []"
    by simp_all
  then show ?thesis using assms(2-) by (simp add: geom_ok_def img_ok_def disk_ok_def nblocks_def)
qed

subsection \<open>The superblock\<close>

lemma rd32_at: "length xs = k \<Longrightarrow> rd32 (xs @ le32 w @ zs) k = w"
  using rd32_append [of xs "le32 w @ zs" 0] by (simp add: rd32_le32)

lemma super_load_pack: "\<exists>d'. super_load (super_pack d L) = Some (d', L)"
proof -
  define A where "A = bytes ''CSFS1'' @ replicate 11 0
     @ le64 (word_of_int (d_cyl d)) @ le64 (word_of_int (d_sec d)) @ replicate 8 (0::byte)"
  define Z :: "byte list" where "Z = replicate 64 0"
  have lA: "length A = 40" by (simp add: A_def bytes_def)
  have sp: "super_pack d L = A @ le32 (total_blocks L) @ le32 (fat_start L) @ le32 (fat_sectors L)
     @ le32 (dir_start L) @ le32 (dir_sectors L) @ le32 (dir_entries L) @ Z"
    by (simp add: super_pack_def A_def Z_def)
  have t: "take 5 (super_pack d L) = bytes ''CSFS1''"
    unfolding sp by (simp add: A_def bytes_def)
  have 1: "rd32 (super_pack d L) 40 = total_blocks L"
    unfolding sp using lA by (rule rd32_at)
  have "rd32 ((A @ le32 (total_blocks L)) @ le32 (fat_start L) @ le32 (fat_sectors L)
     @ le32 (dir_start L) @ le32 (dir_sectors L) @ le32 (dir_entries L) @ Z) 44 = fat_start L"
    by (rule rd32_at) (simp add: lA)
  then have 2: "rd32 (super_pack d L) 44 = fat_start L" unfolding sp by simp
  have "rd32 ((A @ le32 (total_blocks L) @ le32 (fat_start L)) @ le32 (fat_sectors L)
     @ le32 (dir_start L) @ le32 (dir_sectors L) @ le32 (dir_entries L) @ Z) 48 = fat_sectors L"
    by (rule rd32_at) (simp add: lA)
  then have 3: "rd32 (super_pack d L) 48 = fat_sectors L" unfolding sp by simp
  have "rd32 ((A @ le32 (total_blocks L) @ le32 (fat_start L) @ le32 (fat_sectors L))
     @ le32 (dir_start L) @ le32 (dir_sectors L) @ le32 (dir_entries L) @ Z) 52 = dir_start L"
    by (rule rd32_at) (simp add: lA)
  then have 4: "rd32 (super_pack d L) 52 = dir_start L" unfolding sp by simp
  have "rd32 ((A @ le32 (total_blocks L) @ le32 (fat_start L) @ le32 (fat_sectors L)
     @ le32 (dir_start L)) @ le32 (dir_sectors L) @ le32 (dir_entries L) @ Z) 56 = dir_sectors L"
    by (rule rd32_at) (simp add: lA)
  then have 5: "rd32 (super_pack d L) 56 = dir_sectors L" unfolding sp by simp
  have "rd32 ((A @ le32 (total_blocks L) @ le32 (fat_start L) @ le32 (fat_sectors L)
     @ le32 (dir_start L) @ le32 (dir_sectors L)) @ le32 (dir_entries L) @ Z) 60 = dir_entries L"
    by (rule rd32_at) (simp add: lA)
  then have 6: "rd32 (super_pack d L) 60 = dir_entries L" unfolding sp by simp
  show ?thesis unfolding super_load_def t 1 2 3 4 5 6 by simp
qed

text \<open>
  A worker that starts on a disk whose sector 0 holds a superblock adopts it.
\<close>

lemma client_start_adopts:
  assumes i: "img_ok d dk" and z: "sector dk 0 = super_pack d L"
  shows "G_formatted (snd (snd (client_start dk G)))" and "G_L (snd (snd (client_start dk G))) = L"
proof -
  let ?dk0 = "dk\<lparr>g_unread := []\<rparr>"
  have d0: "\<lparr>d_cyl = g_cyl dk, d_sec = g_sec dk\<rparr> = d" using i by (simp add: img_ok_def)
  have c: "disk_connect dk = (d, ?dk0)" using d0 by (simp add: disk_connect_def handle_I_def)
  have g0: "geom_ok d ?dk0" using i by (simp add: geom_ok_def)
  have n0: "unat (0 :: u32) < nblocks ?dk0" using nblocks_pos [OF g0] by simp
  have r: "disk_read_idx d ?dk0 0 = (Some (super_pack d L), rd_disk ?dk0 0)"
    using disk_read_idx_eq [OF g0, of 0] n0 z by simp
  obtain d' where sl: "super_load (super_pack d L) = Some (d', L)" using super_load_pack by blast
  have "client_start dk G = (d', rd_disk ?dk0 0, G\<lparr>G_L := L, G_formatted := True\<rparr>)"
    using c r sl by (simp add: client_start_def try_load_super_def)
  then show "G_formatted (snd (snd (client_start dk G)))"
    and "G_L (snd (snd (client_start dk G))) = L"
    by simp_all
qed

lemma format_small:
  assumes "geom_ok d dk"
    and "nblocks dk < unat (dir_start (compute_layout d)) + unat (dir_sectors (compute_layout d))"
  shows "fst (cmd_format d dk G) = reply ''2''"
    and "G_formatted (snd (snd (cmd_format d dk G))) = G_formatted G"
    and "g_unread (fst (snd (cmd_format d dk G))) \<noteq> []"
    and "sector (fst (snd (cmd_format d dk G))) 0 = super_pack d (compute_layout d)"
    and "G_formatted (snd (snd (client_start (fst (snd (cmd_format d dk G)))
                                  (snd (snd (cmd_format d dk G))))))"
proof -
  obtain ok dk' L fc where f: "format_fs d dk fat_init = (ok, dk', L, fc)"
    by (cases "format_fs d dk fat_init")
  from format_fs_any [OF assms(1), of fat_init] assms(2) f
  have a: "img_ok d dk'" "sector dk' 0 = super_pack d (compute_layout d)" "\<not> ok" "g_unread dk' \<noteq> []"
    by simp_all
  have c: "cmd_format d dk G = (reply ''2'', dk', \<lparr>G_L = L, G_fat = fc, G_formatted = G_formatted G\<rparr>)"
    using f a(3) by (simp add: cmd_format_def)
  show "fst (cmd_format d dk G) = reply ''2''"
    and "G_formatted (snd (snd (cmd_format d dk G))) = G_formatted G"
    and "g_unread (fst (snd (cmd_format d dk G))) \<noteq> []"
    and "sector (fst (snd (cmd_format d dk G))) 0 = super_pack d (compute_layout d)"
    using a by (simp_all add: c)
  show "G_formatted (snd (snd (client_start (fst (snd (cmd_format d dk G)))
                                  (snd (snd (cmd_format d dk G))))))"
    unfolding c using client_start_adopts(1) [OF a(1,2)] by simp
qed

text \<open>
  Claim C6, amended. When the blocks of the disk do not hold the whole metadata
  (\<open>N < dir_start + dir_sectors\<close>), format, asked on a connection without unread
  bytes, replies \<open>"2\n"\<close> and leaves the formatted flag of the running service as it
  is: the disk rejects the write of a sector that lies beyond its end. The payload of
  that write stays unread on the connection of the worker. The superblock has been
  written to sector 0 by then, so the worker that serves the next client adopts it and
  marks the filesystem formatted.
\<close>

theorem format_rejected:
  assumes "geom_ok d dk"
    and "nblocks dk < unat (dir_start (compute_layout d)) + unat (dir_sectors (compute_layout d))"
  shows "fst (cmd_format d dk G) = reply ''2''
     \<and> G_formatted (snd (snd (cmd_format d dk G))) = G_formatted G
     \<and> g_unread (fst (snd (cmd_format d dk G))) \<noteq> []
     \<and> sector (fst (snd (cmd_format d dk G))) 0 = super_pack d (compute_layout d)
     \<and> G_formatted (snd (snd (client_start (fst (snd (cmd_format d dk G)))
                                  (snd (snd (cmd_format d dk G))))))"
  using format_small [OF assms, of G] by simp

lemma small_disk:
  "geom_ok \<lparr>d_cyl = 17, d_sec = 2\<rparr> (the (disk_main 17 2 0 []))"
  "nblocks (the (disk_main 17 2 0 [])) = 34"
  "unat (dir_start (compute_layout \<lparr>d_cyl = 17, d_sec = 2\<rparr>)) = 3"
  "nblocks (the (disk_main 17 2 0 []))
     < unat (dir_start (compute_layout \<lparr>d_cyl = 17, d_sec = 2\<rparr>))
       + unat (dir_sectors (compute_layout \<lparr>d_cyl = 17, d_sec = 2\<rparr>))"
proof -
  let ?d = "\<lparr>d_cyl = 17, d_sec = 2\<rparr>"
  let ?dk = "the (disk_main 17 2 0 [])"
  have m: "disk_main 17 2 0 [] = Some ?dk" by (simp add: disk_main_def Let_def BLKSZ_def)
  show g: "geom_ok ?d ?dk" using m by (rule disk_main_geom) simp_all
  show n: "nblocks ?dk = 34" by (simp add: nblocks_def disk_main_def Let_def BLKSZ_def)
  show ds: "unat (dir_start (compute_layout ?d)) = 3"
    by (simp add: compute_layout_def total_blocks_of_def Let_def BLKSZ_def)
  show "nblocks ?dk < unat (dir_start (compute_layout ?d)) + unat (dir_sectors (compute_layout ?d))"
    using n ds compute_layout_dir(4) [of ?d] by simp
qed

theorem format_rejected_witness:
  "geom_ok \<lparr>d_cyl = 17, d_sec = 2\<rparr> (the (disk_main 17 2 0 []))
   \<and> nblocks (the (disk_main 17 2 0 [])) = 34
   \<and> unat (dir_start (compute_layout \<lparr>d_cyl = 17, d_sec = 2\<rparr>)) = 3
   \<and> fst (cmd_format \<lparr>d_cyl = 17, d_sec = 2\<rparr> (the (disk_main 17 2 0 []))
            (fs_main (compute_layout \<lparr>d_cyl = 17, d_sec = 2\<rparr>))) = reply ''2''
   \<and> \<not> G_formatted (snd (snd (cmd_format \<lparr>d_cyl = 17, d_sec = 2\<rparr> (the (disk_main 17 2 0 []))
            (fs_main (compute_layout \<lparr>d_cyl = 17, d_sec = 2\<rparr>)))))
   \<and> g_unread (fst (snd (cmd_format \<lparr>d_cyl = 17, d_sec = 2\<rparr> (the (disk_main 17 2 0 []))
            (fs_main (compute_layout \<lparr>d_cyl = 17, d_sec = 2\<rparr>))))) \<noteq> []"
  using format_rejected [OF small_disk(1,4), of "fs_main (compute_layout \<lparr>d_cyl = 17, d_sec = 2\<rparr>)"]
    small_disk(1,2,3)
  by (simp add: fs_main_def)

text \<open>
  Claim C6 as stated fails in two ways. It covers \<open>N = dir_start + dir_sectors\<close>, where
  the metadata fits exactly, no data block is left, and format succeeds: a disk of 5
  cylinders with 7 sectors has 35 blocks, of which 3 + 32 are metadata. And a format
  that is rejected does mark the filesystem formatted, on the disk: on a disk of 17
  cylinders with 2 sectors (34 blocks) format replies \<open>"2\n"\<close>, and the worker that
  serves the next client finds the superblock and sets the formatted flag.
\<close>

theorem format_without_data_block:
  "nblocks (the (disk_main 5 7 0 []))
     \<le> unat (dir_start (compute_layout \<lparr>d_cyl = 5, d_sec = 7\<rparr>))
       + unat (dir_sectors (compute_layout \<lparr>d_cyl = 5, d_sec = 7\<rparr>))
   \<and> fst (cmd_format \<lparr>d_cyl = 5, d_sec = 7\<rparr> (the (disk_main 5 7 0 []))
            (fs_main (compute_layout \<lparr>d_cyl = 5, d_sec = 7\<rparr>))) = reply ''0''
   \<and> G_formatted (snd (snd (cmd_format \<lparr>d_cyl = 5, d_sec = 7\<rparr> (the (disk_main 5 7 0 []))
            (fs_main (compute_layout \<lparr>d_cyl = 5, d_sec = 7\<rparr>)))))
   \<and> nblocks (the (disk_main 17 2 0 []))
     \<le> unat (dir_start (compute_layout \<lparr>d_cyl = 17, d_sec = 2\<rparr>))
       + unat (dir_sectors (compute_layout \<lparr>d_cyl = 17, d_sec = 2\<rparr>))
   \<and> \<not> G_formatted (fs_main (compute_layout \<lparr>d_cyl = 17, d_sec = 2\<rparr>))
   \<and> fst (cmd_format \<lparr>d_cyl = 17, d_sec = 2\<rparr> (the (disk_main 17 2 0 []))
            (fs_main (compute_layout \<lparr>d_cyl = 17, d_sec = 2\<rparr>))) = reply ''2''
   \<and> G_formatted (snd (snd (client_start
         (fst (snd (cmd_format \<lparr>d_cyl = 17, d_sec = 2\<rparr> (the (disk_main 17 2 0 []))
            (fs_main (compute_layout \<lparr>d_cyl = 17, d_sec = 2\<rparr>)))))
         (snd (snd (cmd_format \<lparr>d_cyl = 17, d_sec = 2\<rparr> (the (disk_main 17 2 0 []))
            (fs_main (compute_layout \<lparr>d_cyl = 17, d_sec = 2\<rparr>))))))))"
proof -
  let ?d = "\<lparr>d_cyl = 5, d_sec = 7\<rparr>"
  let ?dk = "the (disk_main 5 7 0 [])"
  have m: "disk_main 5 7 0 [] = Some ?dk" by (simp add: disk_main_def Let_def BLKSZ_def)
  have g: "geom_ok ?d ?dk" using m by (rule disk_main_geom) simp_all
  have n: "nblocks ?dk = 35" by (simp add: nblocks_def disk_main_def Let_def BLKSZ_def)
  have ds: "unat (dir_start (compute_layout ?d)) = 3"
    by (simp add: compute_layout_def total_blocks_of_def Let_def BLKSZ_def)
  have "unat (dir_start (compute_layout ?d)) + 32 \<le> nblocks ?dk" using n ds by simp
  from cmd_format_ok [OF g this, of "fs_main (compute_layout ?d)"] n ds compute_layout_dir(4) [of ?d]
  have a: "nblocks ?dk \<le> unat (dir_start (compute_layout ?d)) + unat (dir_sectors (compute_layout ?d))
   \<and> fst (cmd_format ?d ?dk (fs_main (compute_layout ?d))) = reply ''0''
   \<and> G_formatted (snd (snd (cmd_format ?d ?dk (fs_main (compute_layout ?d)))))"
    by (auto simp: fs_ok_def)
  note b = format_small [OF small_disk(1,4), of "fs_main (compute_layout \<lparr>d_cyl = 17, d_sec = 2\<rparr>)"]
  have c: "\<not> G_formatted (fs_main (compute_layout \<lparr>d_cyl = 17, d_sec = 2\<rparr>))" by (simp add: fs_main_def)
  show ?thesis using a b(1,5) c small_disk(4) by simp
qed

text \<open>
  Claim C8. For every geometry the FAT starts at sector 1, the directory follows the
  FAT and has 32 sectors with 64 entries (2 per sector), and the data area starts right
  after the directory. Sector 0 is the superblock: format writes it there, whatever
  its outcome. The block count of the layout is \<open>N = C * S\<close> when that fits into 32
  bits, and the FAT has \<open>ceil(4 * N / 128)\<close> sectors when \<open>4 * N + 127\<close> fits into 32
  bits.
\<close>

theorem layout_computed:
  "fat_start (compute_layout d) = 1
   \<and> unat (dir_start (compute_layout d))
        = unat (fat_start (compute_layout d)) + unat (fat_sectors (compute_layout d))
   \<and> dir_sectors (compute_layout d) = 32
   \<and> dir_entries (compute_layout d) = 64
   \<and> unat (dir_entries (compute_layout d)) = 2 * unat (dir_sectors (compute_layout d))
   \<and> unat (dir_start (compute_layout d) + dir_sectors (compute_layout d))
        = unat (dir_start (compute_layout d)) + unat (dir_sectors (compute_layout d))
   \<and> (geom_ok d dk \<longrightarrow> sector (fst (snd (format_fs d dk fc))) 0 = super_pack d (compute_layout d))
   \<and> (0 \<le> d_cyl d * d_sec d \<and> d_cyl d * d_sec d < 2 ^ 32 \<longrightarrow>
        unat (total_blocks (compute_layout d)) = nat (d_cyl d * d_sec d))
   \<and> (0 \<le> d_cyl d * d_sec d \<and> d_cyl d * d_sec d * 4 + 127 < 2 ^ 32 \<longrightarrow>
        unat (fat_sectors (compute_layout d)) = (nat (d_cyl d * d_sec d) * 4 + 127) div 128)"
proof -
  note u = compute_layout_dir [of d]
  have e: "unat (dir_start (compute_layout d) + dir_sectors (compute_layout d))
        = unat (dir_start (compute_layout d)) + unat (dir_sectors (compute_layout d))"
    using compute_layout_dir_sector [of 32 d]
  proof -
    have "unat (dir_start (compute_layout d)) + 32 < 2 ^ 32" using u(1,3) by simp
    then have "unat (dir_start (compute_layout d) + of_nat 32) = unat (dir_start (compute_layout d)) + 32"
      by (rule unat_add_of_nat)
    then show ?thesis by (simp add: u(4))
  qed
  have s: "geom_ok d dk \<longrightarrow> sector (fst (snd (format_fs d dk fc))) 0 = super_pack d (compute_layout d)"
    using format_fs_any [of d dk fc] by simp
  have t: "0 \<le> d_cyl d * d_sec d \<and> d_cyl d * d_sec d < 2 ^ 32 \<longrightarrow>
        unat (total_blocks (compute_layout d)) = nat (d_cyl d * d_sec d)"
    using unat_total_blocks_of [of d] by (simp add: u(6))
  have f: "0 \<le> d_cyl d * d_sec d \<and> d_cyl d * d_sec d * 4 + 127 < 2 ^ 32 \<longrightarrow>
        unat (fat_sectors (compute_layout d)) = (nat (d_cyl d * d_sec d) * 4 + 127) div 128"
    using compute_layout_fields(3) [of d] by simp
  show ?thesis using u e s t f by simp
qed

lemma mid_disk:
  "geom_ok \<lparr>d_cyl = 32, d_sec = 32\<rparr> (the (disk_main 32 32 0 []))"
proof -
  have m: "disk_main 32 32 0 [] = Some (the (disk_main 32 32 0 []))"
    by (simp add: disk_main_def Let_def BLKSZ_def)
  then show ?thesis by (rule disk_main_geom) simp_all
qed

theorem layout_computed_witness:
  "geom_ok \<lparr>d_cyl = 32, d_sec = 32\<rparr> (the (disk_main 32 32 0 []))
   \<and> fat_start (compute_layout \<lparr>d_cyl = 32, d_sec = 32\<rparr>) = 1
   \<and> unat (dir_start (compute_layout \<lparr>d_cyl = 32, d_sec = 32\<rparr>)) = 33
   \<and> dir_sectors (compute_layout \<lparr>d_cyl = 32, d_sec = 32\<rparr>) = 32
   \<and> dir_entries (compute_layout \<lparr>d_cyl = 32, d_sec = 32\<rparr>) = 64
   \<and> unat (dir_start (compute_layout \<lparr>d_cyl = 32, d_sec = 32\<rparr>)
            + dir_sectors (compute_layout \<lparr>d_cyl = 32, d_sec = 32\<rparr>)) = 65
   \<and> sector (fst (snd (format_fs \<lparr>d_cyl = 32, d_sec = 32\<rparr> (the (disk_main 32 32 0 [])) fat_init))) 0
        = super_pack \<lparr>d_cyl = 32, d_sec = 32\<rparr> (compute_layout \<lparr>d_cyl = 32, d_sec = 32\<rparr>)
   \<and> unat (total_blocks (compute_layout \<lparr>d_cyl = 32, d_sec = 32\<rparr>)) = 1024
   \<and> unat (fat_sectors (compute_layout \<lparr>d_cyl = 32, d_sec = 32\<rparr>)) = 32"
proof -
  let ?d = "\<lparr>d_cyl = 32, d_sec = 32\<rparr>"
  let ?L = "compute_layout ?d"
  note t = layout_computed [of ?d "the (disk_main 32 32 0 [])" fat_init]
  have h: "0 \<le> d_cyl ?d * d_sec ?d \<and> d_cyl ?d * d_sec ?d < 2 ^ 32"
    "0 \<le> d_cyl ?d * d_sec ?d \<and> d_cyl ?d * d_sec ?d * 4 + 127 < 2 ^ 32"
    by simp_all
  from t have a1: "fat_start ?L = 1" by blast
  from t have a2: "unat (dir_start ?L) = unat (fat_start ?L) + unat (fat_sectors ?L)" by blast
  from t have a3: "dir_sectors ?L = 32" by blast
  from t have a4: "dir_entries ?L = 64" by blast
  from t have a5: "unat (dir_start ?L + dir_sectors ?L) = unat (dir_start ?L) + unat (dir_sectors ?L)"
    by blast
  from t mid_disk have a6: "sector (fst (snd (format_fs ?d (the (disk_main 32 32 0 [])) fat_init))) 0
        = super_pack ?d ?L"
    by blast
  from t h(1) have "unat (total_blocks ?L) = nat (d_cyl ?d * d_sec ?d)" by blast
  then have a7: "unat (total_blocks ?L) = 1024" by simp
  from t h(2) have "unat (fat_sectors ?L) = (nat (d_cyl ?d * d_sec ?d) * 4 + 127) div 128" by blast
  then have a8: "unat (fat_sectors ?L) = 32" by simp
  have b: "unat (dir_start ?L) = 33" using a2 a8 by (simp add: a1)
  have c: "unat (dir_start ?L + dir_sectors ?L) = 65" unfolding a5 b by (simp add: a3)
  show ?thesis using mid_disk a1 a3 a4 a6 a7 a8 b c by blast
qed

text \<open>
  Claim C8 as stated fails for large geometries: with \<open>2^30\<close> blocks the byte count of
  the FAT wraps around in 32 bits and the computed FAT has no sector at all, so that
  the directory starts at sector 1.
\<close>

theorem layout_overflow:
  "unat (fat_sectors (compute_layout \<lparr>d_cyl = 32768, d_sec = 32768\<rparr>)) = 0
   \<and> (nat (32768 * 32768) * 4 + 127) div 128 = (33554432 :: nat)
   \<and> unat (dir_start (compute_layout \<lparr>d_cyl = 32768, d_sec = 32768\<rparr>)) = 1"
  by (simp add: compute_layout_def total_blocks_of_def Let_def BLKSZ_def)

section \<open>The filesystem service: create\<close>

lemma same_img_lookup: "same_img dk dk' \<Longrightarrow> lookup dk' L name = lookup dk L name"
  by (simp add: lookup_def same_img_dir_entry)

lemma lookup_None_iff:
  "lookup dk L name = None \<longleftrightarrow> \<not> (\<exists>i < unat (dir_entries L). named (dir_entry dk L i) name)"
  by (auto simp: lookup_def find_None_iff)

lemma lookup_Some:
  "lookup dk L name = Some i \<Longrightarrow> i < unat (dir_entries L) \<and> named (dir_entry dk L i) name"
  by (auto simp: lookup_def find_Some_iff)

lemma find_free_None_iff:
  "find (\<lambda>i. e_used (dir_entry dk L i) = 0) [0..<unat (dir_entries L)] = None
     \<longleftrightarrow> \<not> (\<exists>i < unat (dir_entries L). e_used (dir_entry dk L i) = 0)"
  by (auto simp: find_None_iff)

lemma cstr_nonzero: "x \<in> set (cstr xs) \<Longrightarrow> x \<noteq> 0"
  by (auto simp: cstr_def dest: set_takeWhileD)

lemma cstr_append_zero: "cstr (cstr xs @ 0 # ys) = cstr xs"
proof -
  have "takeWhile (\<lambda>c. c \<noteq> 0) (cstr xs @ 0 # ys) = cstr xs @ takeWhile (\<lambda>c. c \<noteq> 0) (0 # ys)"
    by (rule takeWhile_append2) (rule cstr_nonzero)
  then show ?thesis by (simp add: cstr_def)
qed

text \<open>The entry that create writes for a name.\<close>

lemma new_entry_name:
  assumes "strlen name < MAX_NAME"
  shows "memcpy (replicate MAX_NAME 0) 0 (take (MAX_NAME - Suc 0) (cstr name))
           = cstr name @ replicate (32 - strlen name) 0"
  using assms by (simp add: memcpy_def MAX_NAME_def strlen_def)

lemma new_entry_named:
  assumes "strlen name < MAX_NAME"
  shows "named \<lparr>e_name = (cstr name @ replicate (32 - strlen name) 0)[31 := 0],
                 e_length = 0, e_first = FAT_EOF, e_used = 1\<rparr> name"
proof -
  have l: "length (cstr name) \<le> 31" using assms by (simp add: strlen_def MAX_NAME_def)
  have "(cstr name @ replicate (32 - strlen name) 0)[31 := 0] = cstr name @ replicate (32 - strlen name) 0"
    using l by (simp add: list_update_append replicate_update_same)
  moreover have "replicate (32 - strlen name) (0::byte) = 0 # replicate (31 - strlen name) 0"
  proof -
    have "32 - strlen name = Suc (31 - strlen name)" using l by (simp add: strlen_def)
    then show ?thesis by simp
  qed
  ultimately show ?thesis by (simp add: named_def cstr_append_zero)
qed

lemma create_invalid:
  "strlen name = 0 \<or> MAX_NAME \<le> strlen name \<Longrightarrow> cmd_create d dk G name = (reply ''2'', dk, G)"
  by (auto simp: cmd_create_def)

lemma create_exists:
  assumes ok: "fs_ok d dk G" and v: "1 \<le> strlen name" "strlen name < MAX_NAME"
    and f: "lookup dk (G_L G) name = Some i"
  shows "\<exists>dk' G'. cmd_create d dk G name = (reply ''1'', dk', G') \<and> same_img dk dk'
            \<and> fs_ok d dk' G' \<and> G_L G' = G_L G"
proof -
  let ?L = "G_L G"
  have g: "geom_ok d dk" and lo: "layout_ok ?L dk"
    and c: "fat_loaded (G_fat G) \<longrightarrow> length (fat_v (G_fat G)) = nblocks dk"
    and fm: "G_formatted G"
    using ok by (simp_all add: fs_ok_def)
  from fat_load_ok [OF g lo c] obtain dk1 fc where
    l: "fat_load d ?L dk (G_fat G) = (True, dk1, fc)" "same_img dk dk1" "fat_loaded fc"
       "length (fat_v fc) = nblocks dk"
    by blast
  have g1: "geom_ok d dk1" using l(2) g by (rule same_img_geom)
  have lo1: "layout_ok ?L dk1" using l(2) lo by (rule same_img_layout)
  from dir_find_by_name_eq [OF g1 lo1, of name] obtain dk2 where
    d: "same_img dk1 dk2" "dir_find_by_name d ?L dk1 name =
     ((case lookup dk1 ?L name of None \<Rightarrow> NotFound | Some i \<Rightarrow> Found (i, dir_entry dk1 ?L i)), dk2)"
    by blast
  have lk: "lookup dk1 ?L name = Some i" using f same_img_lookup [OF l(2)] by simp
  have i2: "same_img dk dk2" using l(2) d(1) by (rule same_img_trans)
  have "cmd_create d dk G name = (reply ''1'', dk2, G\<lparr>G_fat := fc\<rparr>)"
    using v fm l(1) d(2) lk by (simp add: cmd_create_def)
  moreover have "fs_ok d dk2 (G\<lparr>G_fat := fc\<rparr>)"
    using same_img_geom [OF i2 g] same_img_layout [OF i2 lo] fm l(4) same_img_nblocks [OF i2]
    by (simp add: fs_ok_def)
  ultimately show ?thesis using i2 by auto
qed

lemma create_new:
  assumes ok: "fs_ok d dk G" and v: "1 \<le> strlen name" "strlen name < MAX_NAME"
    and f: "lookup dk (G_L G) name = None"
  shows "(\<forall>i < unat (dir_entries (G_L G)). e_used (dir_entry dk (G_L G) i) \<noteq> 0) \<longrightarrow>
           fst (cmd_create d dk G name) = reply ''2''"
    and "find (\<lambda>i. e_used (dir_entry dk (G_L G) i) = 0) [0..<unat (dir_entries (G_L G))] = Some sl \<longrightarrow>
          (\<exists>dk' G'. cmd_create d dk G name = (reply ''0'', dk', G') \<and> fs_ok d dk' G'
             \<and> G_L G' = G_L G \<and> fat_loaded (G_fat G')
             \<and> (fat_loaded (G_fat G) \<longrightarrow> G_fat G' = G_fat G)
             \<and> nblocks dk' = nblocks dk
             \<and> dir_entry dk' (G_L G) sl = \<lparr>e_name = cstr name @ replicate (32 - strlen name) 0,
                    e_length = 0, e_first = FAT_EOF, e_used = 1\<rparr>
             \<and> named (dir_entry dk' (G_L G) sl) name
             \<and> (\<forall>i. i \<noteq> sl \<longrightarrow> dir_entry dk' (G_L G) i = dir_entry dk (G_L G) i))"
proof -
  let ?L = "G_L G"
  have g: "geom_ok d dk" and lo: "layout_ok ?L dk"
    and c: "fat_loaded (G_fat G) \<longrightarrow> length (fat_v (G_fat G)) = nblocks dk"
    and fm: "G_formatted G"
    using ok by (simp_all add: fs_ok_def)
  from fat_load_ok [OF g lo c] obtain dk1 fc where
    l: "fat_load d ?L dk (G_fat G) = (True, dk1, fc)" "same_img dk dk1" "fat_loaded fc"
       "length (fat_v fc) = nblocks dk" "fat_loaded (G_fat G) \<longrightarrow> fc = G_fat G"
    by blast
  have g1: "geom_ok d dk1" using l(2) g by (rule same_img_geom)
  have lo1: "layout_ok ?L dk1" using l(2) lo by (rule same_img_layout)
  from dir_find_by_name_eq [OF g1 lo1, of name] obtain dk2 where
    d: "same_img dk1 dk2" "dir_find_by_name d ?L dk1 name =
     ((case lookup dk1 ?L name of None \<Rightarrow> NotFound | Some i \<Rightarrow> Found (i, dir_entry dk1 ?L i)), dk2)"
    by blast
  have lk: "lookup dk1 ?L name = None" using f same_img_lookup [OF l(2)] by simp
  have i2: "same_img dk dk2" using l(2) d(1) by (rule same_img_trans)
  have g2: "geom_ok d dk2" using i2 g by (rule same_img_geom)
  have lo2: "layout_ok ?L dk2" using i2 lo by (rule same_img_layout)
  from dir_find_free_eq [OF g2 lo2] obtain dk3 where
    fr: "same_img dk2 dk3" "dir_find_free d ?L dk2 =
     ((case find (\<lambda>i. e_used (dir_entry dk2 ?L i) = 0) [0..<unat (dir_entries ?L)] of
         None \<Rightarrow> NotFound | Some i \<Rightarrow> Found i), dk3)"
    by blast
  have i3: "same_img dk dk3" using i2 fr(1) by (rule same_img_trans)
  have g3: "geom_ok d dk3" using i3 g by (rule same_img_geom)
  have lo3: "layout_ok ?L dk3" using i3 lo by (rule same_img_layout)
  have e2: "\<And>j. dir_entry dk2 ?L j = dir_entry dk ?L j" using i2 by (rule same_img_dir_entry)
  have e3: "\<And>j. dir_entry dk3 ?L j = dir_entry dk ?L j" using i3 by (rule same_img_dir_entry)
  note fr2 = fr(2) [unfolded e2]
  show "(\<forall>i < unat (dir_entries ?L). e_used (dir_entry dk ?L i) \<noteq> 0) \<longrightarrow>
           fst (cmd_create d dk G name) = reply ''2''"
  proof
    assume "\<forall>i < unat (dir_entries ?L). e_used (dir_entry dk ?L i) \<noteq> 0"
    then have "find (\<lambda>i. e_used (dir_entry dk ?L i) = 0) [0..<unat (dir_entries ?L)] = None"
      by (simp add: find_free_None_iff)
    then show "fst (cmd_create d dk G name) = reply ''2''"
      using v fm l(1) d(2) lk fr2 by (simp add: cmd_create_def)
  qed
  show "find (\<lambda>i. e_used (dir_entry dk ?L i) = 0) [0..<unat (dir_entries ?L)] = Some sl \<longrightarrow>
          (\<exists>dk' G'. cmd_create d dk G name = (reply ''0'', dk', G') \<and> fs_ok d dk' G'
             \<and> G_L G' = ?L \<and> fat_loaded (G_fat G')
             \<and> (fat_loaded (G_fat G) \<longrightarrow> G_fat G' = G_fat G)
             \<and> nblocks dk' = nblocks dk
             \<and> dir_entry dk' ?L sl = \<lparr>e_name = cstr name @ replicate (32 - strlen name) 0,
                    e_length = 0, e_first = FAT_EOF, e_used = 1\<rparr>
             \<and> named (dir_entry dk' ?L sl) name
             \<and> (\<forall>i. i \<noteq> sl \<longrightarrow> dir_entry dk' ?L i = dir_entry dk ?L i))"
  proof
    assume fs: "find (\<lambda>i. e_used (dir_entry dk ?L i) = 0) [0..<unat (dir_entries ?L)] = Some sl"
    then have sl: "sl < unat (dir_entries ?L)" by (auto simp: find_Some_iff)
    define e where "e = \<lparr>e_name = cstr name @ replicate (32 - strlen name) 0,
                    e_length = 0, e_first = FAT_EOF, e_used = 1\<rparr>"
    have ln: "length (e_name e) = 32" using v by (simp add: e_def strlen_def MAX_NAME_def)
    from dir_write_entry_eq [OF g3 lo3 sl ln] obtain dk4 where
      w: "dir_write_entry d ?L dk3 sl e = (True, dk4)" "geom_ok d dk4" "nblocks dk4 = nblocks dk3"
         "dir_entry dk4 ?L sl = e\<lparr>e_name := (e_name e)[31 := 0]\<rparr>"
         "\<forall>i. i \<noteq> sl \<longrightarrow> dir_entry dk4 ?L i = dir_entry dk3 ?L i"
      by blast
    have n4: "nblocks dk4 = nblocks dk" using w(3) same_img_nblocks [OF i3] by simp
    have nm: "named (e\<lparr>e_name := (e_name e)[31 := 0]\<rparr>) name"
      using new_entry_named [OF v(2)] by (simp add: e_def)
    have same: "(e_name e)[31 := 0] = e_name e"
    proof -
      have "length (cstr name) \<le> 31" using v by (simp add: strlen_def MAX_NAME_def)
      then show ?thesis by (simp add: e_def list_update_append replicate_update_same)
    qed
    have c1: "cmd_create d dk G name = (reply ''0'', dk4, G\<lparr>G_fat := fc\<rparr>)"
      using v fm l(1) d(2) lk fr2 fs w(1)
      by (simp add: cmd_create_def new_entry_name [OF v(2)] e_def)
    have lo4: "layout_ok ?L dk4" using lo n4 by (simp add: layout_ok_def)
    have "fs_ok d dk4 (G\<lparr>G_fat := fc\<rparr>)" using w(2) lo4 fm l(4) n4 by (simp add: fs_ok_def)
    moreover have "dir_entry dk4 ?L sl = e" using w(4) same by simp
    moreover have "named (dir_entry dk4 ?L sl) name" using w(4) nm by simp
    moreover have "\<forall>i. i \<noteq> sl \<longrightarrow> dir_entry dk4 ?L i = dir_entry dk ?L i" using w(5) e3 by simp
    ultimately show "\<exists>dk' G'. cmd_create d dk G name = (reply ''0'', dk', G') \<and> fs_ok d dk' G'
             \<and> G_L G' = ?L \<and> fat_loaded (G_fat G')
             \<and> (fat_loaded (G_fat G) \<longrightarrow> G_fat G' = G_fat G)
             \<and> nblocks dk' = nblocks dk
             \<and> dir_entry dk' ?L sl = \<lparr>e_name = cstr name @ replicate (32 - strlen name) 0,
                    e_length = 0, e_first = FAT_EOF, e_used = 1\<rparr>
             \<and> named (dir_entry dk' ?L sl) name
             \<and> (\<forall>i. i \<noteq> sl \<longrightarrow> dir_entry dk' ?L i = dir_entry dk ?L i)"
      using c1 l(3,5) n4 unfolding e_def by (intro exI [of _ dk4] exI [of _ "G\<lparr>G_fat := fc\<rparr>"]) simp
  qed
qed

lemma reply_neq: "reply ''0'' \<noteq> reply ''1''" "reply ''2'' \<noteq> reply ''1''" "reply ''0'' \<noteq> reply ''2''"
  by (simp_all add: reply_simps)

lemma cstr_id: "0 \<notin> set xs \<Longrightarrow> cstr xs = xs"
  by (simp add: cstr_def takeWhile_eq_all_conv) metis

lemma not_named_blank: "\<not> named blank name"
  by (simp add: named_def blank_def)

lemma ex_geom: "geom_ok ex_d ex_disk" "nblocks ex_disk = 36"
proof -
  have m: "disk_main 6 6 1000 [] = Some ex_disk"
    by (simp add: disk_main_def ex_disk_def Let_def BLKSZ_def)
  then show "geom_ok ex_d ex_disk" by (rule disk_main_geom) (simp_all add: ex_d_def)
  show "nblocks ex_disk = 36" by (simp add: nblocks_def disk_main_def ex_disk_def Let_def BLKSZ_def)
qed

lemma ex_layout:
  "unat (dir_start (compute_layout ex_d)) = 3" "dir_entries (compute_layout ex_d) = 64"
  "dir_sectors (compute_layout ex_d) = 32" "total_blocks (compute_layout ex_d) = 36"
  by (simp_all add: compute_layout_def total_blocks_of_def Let_def BLKSZ_def ex_d_def)

lemma ex_formatted_ok:
  "fst ex_formatted = reply ''0''"
  "fs_ok ex_d (fst (snd ex_formatted)) (snd (snd ex_formatted))"
  "G_L (snd (snd ex_formatted)) = compute_layout ex_d"
  "fat_loaded (G_fat (snd (snd ex_formatted)))"
  "nblocks (fst (snd ex_formatted)) = 36"
  "\<forall>j < 36. fat_v (G_fat (snd (snd ex_formatted))) ! j = (if j < 35 then FAT_RESERVED else FAT_FREE)"
  "\<forall>i < 64. dir_entry (fst (snd ex_formatted)) (compute_layout ex_d) i = blank"
proof -
  have big: "unat (dir_start (compute_layout ex_d)) + 32 \<le> nblocks ex_disk"
    using ex_layout ex_geom by simp
  from cmd_format_ok [OF ex_geom(1) big, of "fs_main (compute_layout ex_d)"]
  obtain dk' G' where
    r: "ex_formatted = (reply ''0'', dk', G')" "fs_ok ex_d dk' G'" "G_L G' = compute_layout ex_d"
      "fat_loaded (G_fat G')"
      "\<forall>j < nblocks dk'. fat_v (G_fat G') ! j
           = (if j < unat (dir_start (compute_layout ex_d)) + 32 then FAT_RESERVED else FAT_FREE)"
      "\<forall>i < 64. dir_entry dk' (compute_layout ex_d) i = blank"
    unfolding ex_formatted_def by blast
  have n: "nblocks dk' = 36"
    using r(2,3) ex_layout by (simp add: fs_ok_def layout_ok_def)
  have p: "fst ex_formatted = reply ''0''" "fst (snd ex_formatted) = dk'" "snd (snd ex_formatted) = G'"
    by (simp_all add: r(1))
  show "fst ex_formatted = reply ''0''" by (rule p(1))
  show "fs_ok ex_d (fst (snd ex_formatted)) (snd (snd ex_formatted))" unfolding p by (rule r(2))
  show "G_L (snd (snd ex_formatted)) = compute_layout ex_d" unfolding p by (rule r(3))
  show "fat_loaded (G_fat (snd (snd ex_formatted)))" unfolding p by (rule r(4))
  show "nblocks (fst (snd ex_formatted)) = 36" unfolding p by (rule n)
  show "\<forall>j < 36. fat_v (G_fat (snd (snd ex_formatted))) ! j = (if j < 35 then FAT_RESERVED else FAT_FREE)"
    unfolding p using r(5) n ex_layout(1) by simp
  show "\<forall>i < 64. dir_entry (fst (snd ex_formatted)) (compute_layout ex_d) i = blank"
    unfolding p by (rule r(6))
qed

text \<open>
  Claim C4, amended. On a formatted filesystem, create replies \<open>"1\n"\<close> exactly when the
  name is valid (1 to 31 bytes) and a used directory entry has that name. An invalid
  name is answered with \<open>"2\n"\<close>. For a valid name that no entry has, with a free slot
  in the directory, a first create replies \<open>"0\n"\<close> and a second one \<open>"1\n"\<close>.
\<close>

theorem create_reply:
  assumes ok: "fs_ok d dk G"
  shows "(fst (cmd_create d dk G name) = reply ''1'' \<longleftrightarrow>
            1 \<le> strlen name \<and> strlen name < MAX_NAME
            \<and> (\<exists>i < unat (dir_entries (G_L G)). named (dir_entry dk (G_L G) i) name))
     \<and> (strlen name = 0 \<or> MAX_NAME \<le> strlen name \<longrightarrow> fst (cmd_create d dk G name) = reply ''2'')
     \<and> (1 \<le> strlen name \<and> strlen name < MAX_NAME
          \<and> \<not> (\<exists>i < unat (dir_entries (G_L G)). named (dir_entry dk (G_L G) i) name)
          \<and> (\<exists>i < unat (dir_entries (G_L G)). e_used (dir_entry dk (G_L G) i) = 0) \<longrightarrow>
          fst (cmd_create d dk G name) = reply ''0''
          \<and> fst (cmd_create d (fst (snd (cmd_create d dk G name)))
                    (snd (snd (cmd_create d dk G name))) name) = reply ''1'')"
proof (cases "strlen name = 0 \<or> MAX_NAME \<le> strlen name")
  case True
  then show ?thesis using create_invalid [OF True, of d dk G] reply_neq by auto
next
  case False
  then have v: "1 \<le> strlen name" "strlen name < MAX_NAME" by simp_all
  let ?L = "G_L G"
  show ?thesis
  proof (cases "lookup dk ?L name")
    case (Some i)
    from create_exists [OF ok v Some] have "fst (cmd_create d dk G name) = reply ''1''" by auto
    moreover have "\<exists>i < unat (dir_entries ?L). named (dir_entry dk ?L i) name"
      using lookup_Some [OF Some] by blast
    ultimately show ?thesis using v by simp
  next
    case None
    then have nn: "\<not> (\<exists>i < unat (dir_entries ?L). named (dir_entry dk ?L i) name)"
      by (simp add: lookup_None_iff)
    show ?thesis
    proof (cases "find (\<lambda>i. e_used (dir_entry dk ?L i) = 0) [0..<unat (dir_entries ?L)]")
      case None' : None
      then have nf: "\<forall>i < unat (dir_entries ?L). e_used (dir_entry dk ?L i) \<noteq> 0"
        by (simp add: find_free_None_iff)
      with create_new(1) [OF ok v None] have "fst (cmd_create d dk G name) = reply ''2''" by blast
      then show ?thesis using v nn nf reply_neq by auto
    next
      case (Some sl)
      then have sl: "sl < unat (dir_entries ?L)" by (auto simp: find_Some_iff)
      from create_new(2) [OF ok v None, of sl] Some obtain dk' G' where
        c: "cmd_create d dk G name = (reply ''0'', dk', G')" "fs_ok d dk' G'" "G_L G' = ?L"
           "named (dir_entry dk' ?L sl) name"
        by blast
      have "lookup dk' (G_L G') name \<noteq> None"
        using c(3,4) sl by (auto simp: lookup_None_iff)
      then obtain j where "lookup dk' (G_L G') name = Some j" by auto
      from create_exists [OF c(2) v this] have "fst (cmd_create d dk' G' name) = reply ''1''" by auto
      then show ?thesis using c(1) v nn reply_neq by auto
    qed
  qed
qed

theorem create_reply_witness:
  "fs_ok ex_d (fst (snd ex_formatted)) (snd (snd ex_formatted))
   \<and> strlen (bytes ''foo'') = 3
   \<and> fst ex_created = reply ''0''
   \<and> fst (cmd_create ex_d (fst (snd ex_created)) (snd (snd ex_created)) (bytes ''foo'')) = reply ''1''"
proof -
  let ?dk = "fst (snd ex_formatted)"
  let ?G = "snd (snd ex_formatted)"
  have n: "strlen (bytes ''foo'') = 3" by (simp add: strlen_def cstr_def bytes_def ascii_def)
  have a: "\<not> (\<exists>i < unat (dir_entries (G_L ?G)). named (dir_entry ?dk (G_L ?G) i) (bytes ''foo''))"
    using ex_formatted_ok(3,7) ex_layout not_named_blank by simp
  have "e_used (dir_entry ?dk (G_L ?G) 0) = 0"
    using ex_formatted_ok(3,7) by (simp add: blank_def)
  then have b: "\<exists>i < unat (dir_entries (G_L ?G)). e_used (dir_entry ?dk (G_L ?G) i) = 0"
    using ex_formatted_ok(3) ex_layout by (intro exI [of _ 0]) simp
  from create_reply [OF ex_formatted_ok(2), of "bytes ''foo''"] n a b ex_formatted_ok(2)
  show ?thesis by (simp add: ex_created_def MAX_NAME_def)
qed

text \<open>
  Claim C4 as stated fails for invalid names: on the freshly formatted example disk, a
  name of 32 bytes is answered with \<open>"2\n"\<close>, not \<open>"1\n"\<close>.
\<close>

theorem create_invalid_name:
  "fs_ok ex_d (fst (snd ex_formatted)) (snd (snd ex_formatted))
   \<and> strlen (replicate 32 97) = 32
   \<and> fst (cmd_create ex_d (fst (snd ex_formatted)) (snd (snd ex_formatted)) (replicate 32 97)) = reply ''2''
   \<and> reply ''2'' \<noteq> reply ''1''"
proof -
  have n: "strlen (replicate 32 97) = 32" by (simp add: strlen_def cstr_def)
  then have "MAX_NAME \<le> strlen (replicate 32 97)" by (simp add: MAX_NAME_def)
  then have "cmd_create ex_d (fst (snd ex_formatted)) (snd (snd ex_formatted)) (replicate 32 97)
     = (reply ''2'', fst (snd ex_formatted), snd (snd ex_formatted))"
    by (intro create_invalid) simp
  with n ex_formatted_ok(2) reply_neq show ?thesis by simp
qed

section \<open>The filesystem service: chains\<close>

lemma chain_unique: "is_chain v cur xs \<Longrightarrow> is_chain v cur ys \<Longrightarrow> xs = ys"
proof (induction xs arbitrary: cur ys)
  case Nil
  then show ?case by (cases ys) auto
next
  case (Cons x xs)
  then show ?case by (cases ys) auto
qed

lemma chain_suffix: "is_chain v cur (xs @ b # ys) \<Longrightarrow> is_chain v b (b # ys)"
  by (induction xs arbitrary: cur) auto

lemma chain_distinct: "is_chain v cur bs \<Longrightarrow> distinct bs"
proof (induction bs arbitrary: cur)
  case Nil
  then show ?case by simp
next
  case (Cons b bs)
  then have c: "is_chain v (v ! unat b) bs" and cb: "is_chain v b (b # bs)" by simp_all
  have "b \<notin> set bs"
  proof
    assume "b \<in> set bs"
    then obtain xs ys where s: "bs = xs @ b # ys" by (auto dest: split_list)
    with c have "is_chain v b (b # ys)" using chain_suffix by blast
    with cb have "b # bs = b # ys" by (rule chain_unique)
    with s show False by simp
  qed
  with Cons.IH [OF c] show ?case by simp
qed

lemma chain_update:
  "b \<notin> set bs \<Longrightarrow> is_chain v cur bs \<Longrightarrow> is_chain (v[unat b := x]) cur bs"
proof (induction bs arbitrary: cur)
  case Nil
  then show ?case by simp
next
  case (Cons c bs)
  then have "c \<noteq> b" by auto
  then have "unat c \<noteq> unat b" by (simp add: word_unat_eq_iff)
  with Cons show ?case by simp
qed

lemma chain_in_range: "is_chain v cur bs \<Longrightarrow> b \<in> set bs \<Longrightarrow> unat b < length v \<and> b \<noteq> FAT_EOF"
  by (induction bs arbitrary: cur) auto

lemma chain_EOF: "is_chain v FAT_EOF bs \<Longrightarrow> bs = []"
  by (cases bs) auto

lemma free_chain_ok:
  assumes "is_chain (fat_v fc) cur bs"
  shows "\<exists>fc'. free_chain fc cur = Some fc' \<and> fat_loaded fc' = fat_loaded fc
           \<and> length (fat_v fc') = length (fat_v fc)
           \<and> (\<forall>j < length (fat_v fc). fat_v fc' ! j
                  = (if j \<in> unat ` set bs then FAT_FREE else fat_v fc ! j))"
  using assms
proof (induction bs arbitrary: fc cur)
  case Nil
  then show ?case by (simp add: free_chain.simps)
next
  case (Cons b bs)
  let ?v = "fat_v fc"
  let ?fc1 = "fat_set fc b FAT_FREE"
  have p: "cur = b" "b \<noteq> FAT_EOF" "unat b < length ?v" "is_chain ?v (?v ! unat b) bs"
    using Cons.prems by simp_all
  have d: "b \<notin> set bs" using chain_distinct [OF Cons.prems] by simp
  have f1: "fat_v ?fc1 = ?v[unat b := FAT_FREE]" "fat_loaded ?fc1 = fat_loaded fc"
    by (simp_all add: fat_set_def)
  show ?case
  proof (cases "?v ! unat b = FAT_EOF")
    case True
    then have "bs = []" using p(4) chain_EOF by simp
    moreover have "free_chain fc cur = Some ?fc1"
      using p True by (subst free_chain.simps) (simp add: fat_get_def Let_def)
    ultimately show ?thesis using f1 p(3) by (auto simp: nth_list_update)
  next
    case False
    have c1: "is_chain (fat_v ?fc1) (?v ! unat b) bs"
      unfolding f1 using d p(4) by (rule chain_update)
    from Cons.IH [OF c1] obtain fc' where
      r: "free_chain ?fc1 (?v ! unat b) = Some fc'" "fat_loaded fc' = fat_loaded ?fc1"
         "length (fat_v fc') = length (fat_v ?fc1)"
         "\<forall>j < length (fat_v ?fc1). fat_v fc' ! j
                  = (if j \<in> unat ` set bs then FAT_FREE else fat_v ?fc1 ! j)"
      by blast
    have "free_chain fc cur = Some fc'"
      using p False r(1) by (subst free_chain.simps) (simp add: fat_get_def Let_def)
    then show ?thesis using r(2-) f1 by (auto simp: nth_list_update)
  qed
qed

section \<open>The filesystem service: delete\<close>

lemma dirent_pack_blank: "dirent_pack blank = replicate 64 0"
proof -
  have "length (e_name blank) = 32" by (simp add: blank_def MAX_NAME_def)
  then have "dirent_pack blank = e_name blank @ le32 (e_length blank) @ le32 (e_first blank)
      @ e_used blank # replicate 23 0"
    by (rule dirent_pack_eq)
  also have "\<dots> = replicate 32 0 @ replicate 4 0 @ replicate 4 0 @ replicate 24 0"
    by (simp add: blank_def MAX_NAME_def le32_def numeral_eq_Suc)
  also have "\<dots> = replicate 64 0" by (simp add: replicate_add [symmetric])
  finally show ?thesis .
qed

lemma fat_view_ok:
  assumes ok: "fs_ok d dk G"
  shows "\<exists>dk1. fat_load d (G_L G) dk (G_fat G) = (True, dk1, fat_view d dk G) \<and> same_img dk dk1
           \<and> fat_loaded (fat_view d dk G) \<and> length (fat_v (fat_view d dk G)) = nblocks dk
           \<and> (fat_loaded (G_fat G) \<longrightarrow> fat_view d dk G = G_fat G)"
proof -
  have g: "geom_ok d dk" and lo: "layout_ok (G_L G) dk"
    and c: "fat_loaded (G_fat G) \<longrightarrow> length (fat_v (G_fat G)) = nblocks dk"
    using ok by (simp_all add: fs_ok_def)
  from fat_load_ok [OF g lo c] show ?thesis by (auto simp: fat_view_def)
qed

lemma delete_ok:
  assumes ok: "fs_ok d dk G"
    and f: "lookup dk (G_L G) name = Some slot"
    and ch: "is_chain (fat_v (fat_view d dk G)) (e_first (dir_entry dk (G_L G) slot)) bs"
  shows "\<exists>dk' G'. cmd_delete d dk G name = Some (reply ''0'', dk', G') \<and> fs_ok d dk' G'
     \<and> G_L G' = G_L G \<and> fat_loaded (G_fat G')
     \<and> length (fat_v (G_fat G')) = nblocks dk \<and> nblocks dk' = nblocks dk
     \<and> (\<forall>j < nblocks dk. fat_v (G_fat G') ! j
           = (if j \<in> unat ` set bs then FAT_FREE else fat_v (fat_view d dk G) ! j))
     \<and> take 64 (drop ((slot mod 2) * 64) (sector dk' (unat (dir_start (G_L G)) + slot div 2)))
           = replicate 64 0
     \<and> dir_entry dk' (G_L G) slot = blank
     \<and> (\<forall>i. i \<noteq> slot \<longrightarrow> dir_entry dk' (G_L G) i = dir_entry dk (G_L G) i)"
proof -
  let ?L = "G_L G"
  let ?e = "dir_entry dk ?L slot"
  have g: "geom_ok d dk" and lo: "layout_ok ?L dk" and fm: "G_formatted G"
    using ok by (simp_all add: fs_ok_def)
  from fat_view_ok [OF ok] obtain dk1 where
    l: "fat_load d ?L dk (G_fat G) = (True, dk1, fat_view d dk G)" "same_img dk dk1"
       "fat_loaded (fat_view d dk G)" "length (fat_v (fat_view d dk G)) = nblocks dk"
    by blast
  define fc where "fc = fat_view d dk G"
  have g1: "geom_ok d dk1" using l(2) g by (rule same_img_geom)
  have lo1: "layout_ok ?L dk1" using l(2) lo by (rule same_img_layout)
  from dir_find_by_name_eq [OF g1 lo1, of name] obtain dk2 where
    df: "same_img dk1 dk2" "dir_find_by_name d ?L dk1 name =
     ((case lookup dk1 ?L name of None \<Rightarrow> NotFound | Some i \<Rightarrow> Found (i, dir_entry dk1 ?L i)), dk2)"
    by blast
  have lk: "lookup dk1 ?L name = Some slot" using f same_img_lookup [OF l(2)] by simp
  have e1: "dir_entry dk1 ?L slot = ?e" using l(2) by (rule same_img_dir_entry)
  have d2: "dir_find_by_name d ?L dk1 name = (Found (slot, ?e), dk2)" using df(2) lk e1 by simp
  have i2: "same_img dk dk2" using l(2) df(1) by (rule same_img_trans)
  have g2: "geom_ok d dk2" using i2 g by (rule same_img_geom)
  have lo2: "layout_ok ?L dk2" using i2 lo by (rule same_img_layout)
  have sl: "slot < unat (dir_entries ?L)" using lookup_Some [OF f] by simp
  \<comment> \<open>the chain is freed in the cache\<close>
  from free_chain_ok [OF ch] obtain fc1 where
    fr: "free_chain fc (e_first ?e) = Some fc1" "fat_loaded fc1"
        "length (fat_v fc1) = nblocks dk"
        "\<forall>j < nblocks dk. fat_v fc1 ! j = (if j \<in> unat ` set bs then FAT_FREE else fat_v fc ! j)"
    using l(3,4) unfolding fc_def by auto
  have fr': "(if e_first ?e \<noteq> FAT_EOF then free_chain fc (e_first ?e) else Some fc) = Some fc1"
  proof (cases "e_first ?e = FAT_EOF")
    case True
    then have "free_chain fc (e_first ?e) = Some fc" by (simp add: free_chain.simps)
    with fr(1) True show ?thesis by simp
  next
    case False
    with fr(1) show ?thesis by simp
  qed
  \<comment> \<open>the FAT is flushed\<close>
  from fat_flush_ok [OF g2 lo2, of fc1] obtain dk3 where
    fl: "fat_flush d ?L dk2 fc1 = (True, dk3)" "geom_ok d dk3" "nblocks dk3 = nblocks dk2"
        "\<forall>j. unat (dir_start ?L) \<le> j \<longrightarrow> sector dk3 j = sector dk2 j"
    by blast
  have n3: "nblocks dk3 = nblocks dk" using fl(3) same_img_nblocks [OF i2] by simp
  have lo3: "layout_ok ?L dk3" using lo n3 by (simp add: layout_ok_def)
  have e3: "\<And>i. dir_entry dk3 ?L i = dir_entry dk ?L i"
    using fl(4) same_img_sector [OF i2] by (simp add: dir_entry_def)
  \<comment> \<open>the slot is cleared\<close>
  have ln: "length (e_name blank) = 32" by (simp add: blank_def MAX_NAME_def)
  from dir_write_entry_eq [OF fl(2) lo3 sl ln] obtain dk4 where
    w: "dir_write_entry d ?L dk3 slot blank = (True, dk4)" "geom_ok d dk4" "nblocks dk4 = nblocks dk3"
       "sector dk4 (unat (dir_start ?L) + slot div 2)
               = memcpy (sector dk3 (unat (dir_start ?L) + slot div 2)) ((slot mod 2) * 64) (dirent_pack blank)"
       "dir_entry dk4 ?L slot = blank\<lparr>e_name := (e_name blank)[31 := 0]\<rparr>"
       "\<forall>i. i \<noteq> slot \<longrightarrow> dir_entry dk4 ?L i = dir_entry dk3 ?L i"
    by blast
  have n4: "nblocks dk4 = nblocks dk" using w(3) n3 by simp
  have lo4: "layout_ok ?L dk4" using lo n4 by (simp add: layout_ok_def)
  have b4: "dir_entry dk4 ?L slot = blank"
    using w(5) by (simp add: blank_def MAX_NAME_def replicate_update_same)
  have z: "take 64 (drop ((slot mod 2) * 64) (sector dk4 (unat (dir_start ?L) + slot div 2))) = replicate 64 0"
  proof -
    have nb: "nblocks dk3 < 2 ^ 32" using fl(2) by (simp add: geom_ok_def img_ok_def)
    have "unat (dir_start ?L) + slot div 2 < nblocks dk3"
      using dir_sector_in_range(2) [OF lo3 nb sl] .
    then have ls: "length (sector dk3 (unat (dir_start ?L) + slot div 2)) = BLKSZ"
      using fl(2) by (intro sector_length)
    have "slot mod 2 \<le> 1" by simp
    then have "(slot mod 2) * 64 \<le> 64" by simp
    then have "(slot mod 2) * 64 + length (replicate 64 (0::byte))
          \<le> length (sector dk3 (unat (dir_start ?L) + slot div 2))"
      using ls by (simp add: BLKSZ_def)
    from take_drop_memcpy [OF this] show ?thesis by (simp add: w(4) dirent_pack_blank)
  qed
  have c: "cmd_delete d dk G name = Some (reply ''0'', dk4, G\<lparr>G_fat := fc1\<rparr>)"
    using fm l(1) d2 fr' fl(1) w(1) unfolding fc_def by (simp add: cmd_delete_def)
  have "fs_ok d dk4 (G\<lparr>G_fat := fc1\<rparr>)" using w(2) lo4 fm fr(3) n4 by (simp add: fs_ok_def)
  moreover have "\<forall>i. i \<noteq> slot \<longrightarrow> dir_entry dk4 ?L i = dir_entry dk ?L i" using w(6) e3 by simp
  ultimately show ?thesis
    using c fr(2,3,4) n4 z b4 unfolding fc_def
    by (intro exI [of _ dk4] exI [of _ "G\<lparr>G_fat := fc1\<rparr>"]) simp
qed

lemma read_missing:
  assumes ok: "fs_ok d dk G" and f: "lookup dk (G_L G) name = None"
  shows "fst (cmd_read d dk G name junk) = reply ''1 0 ''"
proof -
  let ?L = "G_L G"
  have g: "geom_ok d dk" and lo: "layout_ok ?L dk" and fm: "G_formatted G"
    using ok by (simp_all add: fs_ok_def)
  from fat_view_ok [OF ok] obtain dk1 where
    l: "fat_load d ?L dk (G_fat G) = (True, dk1, fat_view d dk G)" "same_img dk dk1"
    by blast
  have g1: "geom_ok d dk1" using l(2) g by (rule same_img_geom)
  have lo1: "layout_ok ?L dk1" using l(2) lo by (rule same_img_layout)
  from dir_find_by_name_eq [OF g1 lo1, of name] obtain dk2 where
    df: "dir_find_by_name d ?L dk1 name =
     ((case lookup dk1 ?L name of None \<Rightarrow> NotFound | Some i \<Rightarrow> Found (i, dir_entry dk1 ?L i)), dk2)"
    by blast
  have lk: "lookup dk1 ?L name = None" using f same_img_lookup [OF l(2)] by simp
  show ?thesis using fm l(1) df lk by (simp add: cmd_read_def)
qed

text \<open>
  Claim C7. On a formatted filesystem, for a name that names a used directory entry
  (and no second one: \<open>names_unique\<close>, which the service maintains, gives this for
  every name that is found) whose chain can be walked from its first block to the end
  marker, delete replies \<open>"0\n"\<close>; afterwards every FAT entry that the
  walk visits is FREE, the 64 bytes of the directory slot are zero, and a read of the
  name replies \<open>"1 0 \n"\<close>.
\<close>

theorem delete_frees_chain:
  assumes ok: "fs_ok d dk G"
    and f: "lookup dk (G_L G) name = Some slot"
    and u: "\<forall>i < unat (dir_entries (G_L G)). i \<noteq> slot \<longrightarrow> \<not> named (dir_entry dk (G_L G) i) name"
    and ch: "is_chain (fat_v (fat_view d dk G)) (e_first (dir_entry dk (G_L G) slot)) bs"
  shows "\<exists>dk' G'. cmd_delete d dk G name = Some (reply ''0'', dk', G')
     \<and> (\<forall>b \<in> set bs. fat_v (G_fat G') ! unat b = FAT_FREE)
     \<and> take 64 (drop ((slot mod 2) * 64) (sector dk' (unat (dir_start (G_L G)) + slot div 2)))
           = replicate 64 0
     \<and> fst (cmd_read d dk' G' name junk) = reply ''1 0 ''"
proof -
  from delete_ok [OF ok f ch] obtain dk' G' where
    r: "cmd_delete d dk G name = Some (reply ''0'', dk', G')" "fs_ok d dk' G'" "G_L G' = G_L G"
       "\<forall>j < nblocks dk. fat_v (G_fat G') ! j
           = (if j \<in> unat ` set bs then FAT_FREE else fat_v (fat_view d dk G) ! j)"
       "take 64 (drop ((slot mod 2) * 64) (sector dk' (unat (dir_start (G_L G)) + slot div 2)))
           = replicate 64 0"
       "dir_entry dk' (G_L G) slot = blank"
       "\<forall>i. i \<noteq> slot \<longrightarrow> dir_entry dk' (G_L G) i = dir_entry dk (G_L G) i"
    by blast
  from fat_view_ok [OF ok] have len: "length (fat_v (fat_view d dk G)) = nblocks dk" by blast
  have fr: "\<forall>b \<in> set bs. fat_v (G_fat G') ! unat b = FAT_FREE"
  proof
    fix b assume b: "b \<in> set bs"
    then have "unat b < nblocks dk" using chain_in_range [OF ch b] len by simp
    with r(4) b show "fat_v (G_fat G') ! unat b = FAT_FREE" by simp
  qed
  have "lookup dk' (G_L G') name = None"
    unfolding lookup_None_iff r(3)
  proof (intro notI, elim exE conjE)
    fix i assume i: "i < unat (dir_entries (G_L G))" and n: "named (dir_entry dk' (G_L G) i) name"
    show False
    proof (cases "i = slot")
      case True
      with n r(6) show False by (simp add: not_named_blank)
    next
      case False
      with n r(7) u i show False by simp
    qed
  qed
  from read_missing [OF r(2) this] have "fst (cmd_read d dk' G' name junk) = reply ''1 0 ''" .
  with r(1,5) fr show ?thesis by blast
qed

section \<open>The filesystem service: allocation\<close>

lemma FAT_consts [simp]: "FAT_EOF \<noteq> FAT_FREE" "FAT_FREE \<noteq> FAT_EOF"
  by (simp_all add: FAT_EOF_def FAT_FREE_def)

lemma free_blocks_set:
  "set (free_blocks L v) = {i. unat (dir_start L + dir_sectors L) \<le> i \<and> i < unat (total_blocks L)
                                \<and> v ! i = FAT_FREE}"
  by (auto simp: free_blocks_def)

lemma free_blocks_card: "length (free_blocks L v) = card (set (free_blocks L v))"
proof -
  have "distinct (free_blocks L v)" by (simp add: free_blocks_def)
  then show ?thesis by (simp add: distinct_card)
qed

lemma find_free_block_loop_Some:
  "\<exists>i \<in> set js. v ! i = FAT_FREE \<Longrightarrow>
   \<exists>i. find_free_block_loop v js = Some i \<and> i \<in> set js \<and> v ! i = FAT_FREE"
  by (induction js) auto

lemma find_free_block_loop_None:
  "\<forall>i \<in> set js. v ! i \<noteq> FAT_FREE \<Longrightarrow> find_free_block_loop v js = None"
  by (induction js) auto

lemma find_free_block_Some:
  assumes "free_blocks L (fat_v fc) \<noteq> []"
  shows "\<exists>i. find_free_block L fc (dir_start L + dir_sectors L) = Some (of_nat i)
            \<and> i \<in> set (free_blocks L (fat_v fc))"
proof -
  from assms obtain i where "i \<in> set (free_blocks L (fat_v fc))" by (cases "free_blocks L (fat_v fc)") auto
  then have "\<exists>i \<in> set [unat (dir_start L + dir_sectors L)..<unat (total_blocks L)]. fat_v fc ! i = FAT_FREE"
    by (auto simp: free_blocks_set)
  from find_free_block_loop_Some [OF this] show ?thesis
    by (auto simp: find_free_block_def free_blocks_set)
qed

lemma find_free_block_None:
  "free_blocks L (fat_v fc) = [] \<Longrightarrow> find_free_block L fc (dir_start L + dir_sectors L) = None"
proof -
  assume "free_blocks L (fat_v fc) = []"
  then have "set (free_blocks L (fat_v fc)) = {}" by simp
  then have "\<forall>i \<in> set [unat (dir_start L + dir_sectors L)..<unat (total_blocks L)]. fat_v fc ! i \<noteq> FAT_FREE"
    unfolding free_blocks_set by auto
  then show ?thesis by (simp add: find_free_block_def find_free_block_loop_None)
qed

lemma unat_of_nat_u32: "i < 2 ^ 32 \<Longrightarrow> unat (of_nat i :: u32) = i"
  by (simp add: unat_of_nat)

lemma alloc_blocks_ok:
  assumes len: "length (fat_v fc) = unat (total_blocks L)"
    and k: "k \<le> length (free_blocks L (fat_v fc))"
    and a: "0 < unat (dir_start L + dir_sectors L)"
    and pv: "prev \<noteq> FAT_EOF \<longrightarrow> unat prev < unat (total_blocks L) \<and> fat_v fc ! unat prev \<noteq> FAT_FREE"
  shows "\<exists>fc' head' last' cs.
      alloc_blocks L (dir_start L + dir_sectors L) k fc head prev = (True, fc', head', last')
      \<and> length (fat_v fc') = unat (total_blocks L) \<and> fat_loaded fc' = fat_loaded fc
      \<and> length cs = k
      \<and> (\<forall>c \<in> set cs. unat (dir_start L + dir_sectors L) \<le> unat c \<and> unat c < unat (total_blocks L)
             \<and> fat_v fc ! unat c = FAT_FREE)
      \<and> (\<forall>j < unat (total_blocks L). j \<notin> unat ` set cs \<and> (prev = FAT_EOF \<or> j \<noteq> unat prev)
             \<longrightarrow> fat_v fc' ! j = fat_v fc ! j)
      \<and> (k = 0 \<longrightarrow> fc' = fc \<and> head' = head)
      \<and> (k > 0 \<longrightarrow> (if prev = FAT_EOF then is_chain (fat_v fc') head' cs
                      else head' = head \<and> is_chain (fat_v fc') prev (prev # cs)))"
  using len k pv
proof (induction k arbitrary: fc head prev)
  case 0
  then show ?case by simp
next
  case (Suc k)
  define N where "N = unat (total_blocks L)"
  define ds where "ds = unat (dir_start L + dir_sectors L)"
  let ?v = "fat_v fc"
  have N32: "N < 2 ^ 32" unfolding N_def using unsigned_less [of "total_blocks L"] by simp
  have ne: "free_blocks L ?v \<noteq> []" using Suc.prems(2) by auto
  from find_free_block_Some [OF ne] obtain f0 where
    fb: "find_free_block L fc (dir_start L + dir_sectors L) = Some (of_nat f0)"
    and f0: "f0 \<in> set (free_blocks L ?v)"
    by blast
  have f0p: "ds \<le> f0" "f0 < N" "?v ! f0 = FAT_FREE"
    using f0 by (simp_all add: free_blocks_set N_def ds_def)
  define b :: u32 where "b = of_nat f0"
  have ub: "unat b = f0" unfolding b_def using f0p(2) N32 by (intro unat_of_nat_u32) simp
  have bne: "b \<noteq> FAT_EOF"
  proof
    assume "b = FAT_EOF"
    then have "unat b = 2 ^ 32 - 1" by (simp add: FAT_EOF_def)
    with ub f0p(2) N32 show False by simp
  qed
  have bnz: "b \<noteq> FAT_FREE"
  proof
    assume "b = FAT_FREE"
    then have "unat b = 0" by (simp add: FAT_FREE_def)
    with ub f0p(1) a show False by (simp add: ds_def)
  qed
  define fc1 where "fc1 = fat_set fc b FAT_EOF"
  define fc2 where "fc2 = (if prev \<noteq> FAT_EOF then fat_set fc1 prev b else fc1)"
  define head2 where "head2 = (if prev \<noteq> FAT_EOF then head else b)"
  have pf: "prev \<noteq> FAT_EOF \<Longrightarrow> unat prev \<noteq> f0" using Suc.prems(3) f0p(3) by auto
  have v2: "fat_v fc2 = (if prev \<noteq> FAT_EOF then (?v[f0 := FAT_EOF])[unat prev := b] else ?v[f0 := FAT_EOF])"
    and ld2: "fat_loaded fc2 = fat_loaded fc"
    by (simp_all add: fc2_def fc1_def fat_set_def ub)
  have l2: "length (fat_v fc2) = unat (total_blocks L)" using Suc.prems(1) by (simp add: v2)
  have nth2: "\<And>j. j < N \<Longrightarrow> fat_v fc2 ! j
        = (if prev \<noteq> FAT_EOF \<and> j = unat prev then b else if j = f0 then FAT_EOF else ?v ! j)"
    using Suc.prems(1) by (auto simp: v2 N_def nth_list_update)
  have fs2: "set (free_blocks L (fat_v fc2)) = set (free_blocks L ?v) - {f0}"
  proof -
    have "\<And>j. j < N \<Longrightarrow> fat_v fc2 ! j = FAT_FREE \<longleftrightarrow> ?v ! j = FAT_FREE \<and> j \<noteq> f0"
      using nth2 bnz Suc.prems(3) by (auto simp: N_def)
    then show ?thesis unfolding free_blocks_set N_def [symmetric] by auto
  qed
  have k2: "k \<le> length (free_blocks L (fat_v fc2))"
  proof -
    have "card (set (free_blocks L ?v) - {f0}) = card (set (free_blocks L ?v)) - 1"
      using f0 by simp
    then show ?thesis using Suc.prems(2) by (simp add: free_blocks_card fs2)
  qed
  have pv2: "b \<noteq> FAT_EOF \<longrightarrow> unat b < unat (total_blocks L) \<and> fat_v fc2 ! unat b \<noteq> FAT_FREE"
    using nth2 [of f0] f0p(2) pf ub by (auto simp: N_def)
  from Suc.IH [OF l2 k2 pv2, of head2] obtain fc' head' last' cs where
    r: "alloc_blocks L (dir_start L + dir_sectors L) k fc2 head2 b = (True, fc', head', last')"
       "length (fat_v fc') = unat (total_blocks L)" "fat_loaded fc' = fat_loaded fc2"
       "length cs = k"
       "\<forall>c \<in> set cs. ds \<le> unat c \<and> unat c < N \<and> fat_v fc2 ! unat c = FAT_FREE"
       "\<forall>j < N. j \<notin> unat ` set cs \<and> (b = FAT_EOF \<or> j \<noteq> unat b) \<longrightarrow> fat_v fc' ! j = fat_v fc2 ! j"
       "k = 0 \<longrightarrow> fc' = fc2 \<and> head' = head2"
       "k > 0 \<longrightarrow> (if b = FAT_EOF then is_chain (fat_v fc') head' cs
                      else head' = head2 \<and> is_chain (fat_v fc') b (b # cs))"
    unfolding N_def ds_def by blast
  have al: "alloc_blocks L (dir_start L + dir_sectors L) (Suc k) fc head prev = (True, fc', head', last')"
    using fb r(1) by (simp add: Let_def b_def [symmetric] fc1_def [symmetric] fc2_def [symmetric] head2_def [symmetric])
  have csf: "\<forall>c \<in> set cs. unat c \<noteq> f0 \<and> (prev \<noteq> FAT_EOF \<longrightarrow> unat c \<noteq> unat prev)
               \<and> fat_v fc ! unat c = FAT_FREE"
  proof
    fix c assume c: "c \<in> set cs"
    then have cc: "unat c < N" "fat_v fc2 ! unat c = FAT_FREE" using r(5) by simp_all
    show "unat c \<noteq> f0 \<and> (prev \<noteq> FAT_EOF \<longrightarrow> unat c \<noteq> unat prev) \<and> fat_v fc ! unat c = FAT_FREE"
      using nth2 [OF cc(1)] cc(2) bnz by (auto split: if_splits)
  qed
  have hd': "head' = head2"
  proof (cases "k = 0")
    case True
    with r(7) show ?thesis by simp
  next
    case False
    with r(8) bne show ?thesis by simp
  qed
  have chb: "is_chain (fat_v fc') b (b # cs)"
  proof (cases "k = 0")
    case True
    then have "cs = []" "fc' = fc2" using r(4,7) by simp_all
    moreover have "fat_v fc2 ! f0 = FAT_EOF" using nth2 [OF f0p(2)] pf by auto
    ultimately show ?thesis using bne ub f0p(2) l2 by (simp add: N_def)
  next
    case False
    with r(8) bne show ?thesis by simp
  qed
  have unch: "\<forall>j < N. j \<notin> unat ` set (b # cs) \<and> (prev = FAT_EOF \<or> j \<noteq> unat prev)
             \<longrightarrow> fat_v fc' ! j = fat_v fc ! j"
  proof (intro allI impI)
    fix j assume j: "j < N" and h: "j \<notin> unat ` set (b # cs) \<and> (prev = FAT_EOF \<or> j \<noteq> unat prev)"
    then have "fat_v fc' ! j = fat_v fc2 ! j" using r(6) by (simp add: ub)
    also have "\<dots> = fat_v fc ! j" using nth2 [OF j] h by (auto simp: ub)
    finally show "fat_v fc' ! j = fat_v fc ! j" .
  qed
  have fin: "if prev = FAT_EOF then is_chain (fat_v fc') head' (b # cs)
             else head' = head \<and> is_chain (fat_v fc') prev (prev # b # cs)"
  proof (cases "prev = FAT_EOF")
    case True
    then show ?thesis using chb hd' by (simp add: head2_def)
  next
    case False
    have pN: "unat prev < N" using False Suc.prems(3) by (simp add: N_def)
    have "unat prev \<notin> unat ` set cs" using csf False by auto
    moreover have "unat prev \<noteq> unat b" using pf [OF False] ub by simp
    ultimately have "fat_v fc' ! unat prev = fat_v fc2 ! unat prev" using r(6) pN by simp
    also have "\<dots> = b" using nth2 [OF pN] False by simp
    finally have "fat_v fc' ! unat prev = b" .
    then show ?thesis using False chb hd' pN r(2) by (simp add: head2_def N_def)
  qed
  show ?case
    apply (rule exI [of _ fc'], rule exI [of _ head'], rule exI [of _ last'], rule exI [of _ "b # cs"])
    using al r(2,3,4) ld2 csf r(5) f0p ub unch fin
    by (simp add: N_def ds_def)
qed

section \<open>The filesystem service: write and read\<close>

lemma length_chunk [simp]: "length (chunk data pos) = BLKSZ"
  by (simp add: chunk_def memcpy_def)

lemma chunk_take:
  assumes "tk = (if left < BLKSZ then left else BLKSZ)" "left = length data - pos"
  shows "memcpy (replicate BLKSZ 0) 0 (take tk (drop pos data)) = chunk data pos"
    and "take tk (chunk data pos) = take tk (drop pos data)"
proof -
  have e: "take tk (drop pos data) = take BLKSZ (drop pos data)" using assms by simp
  show "memcpy (replicate BLKSZ 0) 0 (take tk (drop pos data)) = chunk data pos"
    by (simp add: chunk_def e)
  have "tk \<le> length (take BLKSZ (drop pos data))" using assms by simp
  then have "take tk (chunk data pos) = take tk (take BLKSZ (drop pos data))"
    by (simp add: chunk_def memcpy_def)
  then show "take tk (chunk data pos) = take tk (drop pos data)" using assms by (simp add: min_def)
qed

lemma blocks_count:
  assumes "Suc n \<le> (left + BLKSZ - 1) div BLKSZ"
  shows "0 < left" and "n \<le> (left - (if left < BLKSZ then left else BLKSZ) + BLKSZ - 1) div BLKSZ"
    and "n > 0 \<longrightarrow> BLKSZ < left"
proof -
  show l: "0 < left" using assms by (cases "left = 0") (simp_all add: BLKSZ_def)
  show "n \<le> (left - (if left < BLKSZ then left else BLKSZ) + BLKSZ - 1) div BLKSZ"
  proof (cases "left \<le> BLKSZ")
    case True
    then have "(left + BLKSZ - 1) div BLKSZ = 1" using l by (simp add: BLKSZ_def)
    with assms True show ?thesis by (auto simp: BLKSZ_def)
  next
    case False
    then have "left + BLKSZ - 1 = (left - BLKSZ + BLKSZ - 1) + BLKSZ" by simp
    then have "(left + BLKSZ - 1) div BLKSZ = (left - BLKSZ + BLKSZ - 1) div BLKSZ + 1"
      by (simp add: BLKSZ_def)
    with assms False show ?thesis by simp
  qed
  show "n > 0 \<longrightarrow> BLKSZ < left"
  proof
    assume "n > 0"
    then have "2 \<le> (left + BLKSZ - 1) div BLKSZ" using assms by simp
    then show "BLKSZ < left" by (simp add: BLKSZ_def)
  qed
qed

lemma blocks_count_eq:
  assumes "Suc n = (left + BLKSZ - 1) div BLKSZ"
  shows "n = (left - (if left < BLKSZ then left else BLKSZ) + BLKSZ - 1) div BLKSZ"
proof (cases "left \<le> BLKSZ")
  case True
  have "0 < left" using assms by (cases "left = 0") (simp_all add: BLKSZ_def)
  with True have "(left + BLKSZ - 1) div BLKSZ = 1" by (simp add: BLKSZ_def)
  with assms True show ?thesis by (auto simp: BLKSZ_def)
next
  case False
  then have "left + BLKSZ - 1 = (left - BLKSZ + BLKSZ - 1) + BLKSZ" by simp
  then have "(left + BLKSZ - 1) div BLKSZ = (left - BLKSZ + BLKSZ - 1) div BLKSZ + 1"
    by (simp add: BLKSZ_def)
  with assms False show ?thesis by simp
qed

lemma write_blocks_ok:
  assumes "geom_ok d dk" and "is_chain (fat_v fc) cur cs"
    and "\<forall>c \<in> set cs. unat c < nblocks dk"
    and "left = length data - pos" and "pos \<le> length data"
    and "length cs \<le> (left + BLKSZ - 1) div BLKSZ"
  shows "\<exists>dk'. write_blocks d fc data (length data) dk cur left pos = Some (True, dk')
     \<and> geom_ok d dk' \<and> nblocks dk' = nblocks dk
     \<and> (\<forall>j. j \<notin> unat ` set cs \<longrightarrow> sector dk' j = sector dk j)
     \<and> (\<forall>i < length cs. sector dk' (unat (cs ! i)) = chunk data (pos + i * BLKSZ))"
  using assms
proof (induction cs arbitrary: dk cur left pos)
  case Nil
  then show ?case by (simp add: write_blocks.simps)
next
  case (Cons c cs)
  let ?v = "fat_v fc"
  define tk where "tk = (if left < BLKSZ then left else BLKSZ)"
  define nxt where "nxt = ?v ! unat c"
  define cur' where "cur' = (if nxt = FAT_EOF \<or> length data \<le> pos + tk then FAT_EOF else nxt)"
  have p: "cur = c" "c \<noteq> FAT_EOF" "is_chain ?v nxt cs" using Cons.prems(2) by (simp_all add: nxt_def)
  have cn: "unat c < nblocks dk" using Cons.prems(3) by simp
  note bc = blocks_count [of "length cs" left] 
  have cnt: "Suc (length cs) \<le> (left + BLKSZ - 1) div BLKSZ" using Cons.prems(6) by simp
  have l0: "0 < left" using bc(1) [OF cnt] .
  have cnt': "length cs \<le> (left - tk + BLKSZ - 1) div BLKSZ" using bc(2) [OF cnt] by (simp add: tk_def)
  have big: "cs \<noteq> [] \<Longrightarrow> tk = BLKSZ \<and> pos + BLKSZ < length data"
    using bc(3) [OF cnt] Cons.prems(4) by (auto simp: tk_def)
  have blk: "memcpy (replicate BLKSZ 0) 0 (take tk (drop pos data)) = chunk data pos"
    using chunk_take(1) [OF tk_def Cons.prems(4)] .
  let ?dk1 = "wr_disk dk (unat c) (chunk data pos)"
  have w: "disk_write_idx d dk c (chunk data pos) = (True, ?dk1)"
    using cn by (simp add: disk_write_idx_eq [OF Cons.prems(1) length_chunk])
  have g1: "geom_ok d ?dk1" and n1: "nblocks ?dk1 = nblocks dk"
    using wr_disk_geom [OF Cons.prems(1) length_chunk cn] by simp_all
  have s1: "\<And>j. sector ?dk1 j = (if j = unat c then chunk data pos else sector dk j)"
    using wr_disk_sector [OF Cons.prems(1) length_chunk cn] by simp
  have ch': "is_chain ?v cur' cs"
  proof (cases "nxt = FAT_EOF \<or> length data \<le> pos + tk")
    case True
    have "cs = []"
    proof (cases "nxt = FAT_EOF")
      case True
      with p(3) show ?thesis using chain_EOF by simp
    next
      case False
      with True have "length data \<le> pos + tk" by simp
      then show ?thesis using big by (cases cs) auto
    qed
    with True show ?thesis by (simp add: cur'_def)
  next
    case False
    with p(3) show ?thesis by (simp add: cur'_def)
  qed
  have r1: "\<forall>c \<in> set cs. unat c < nblocks ?dk1" using Cons.prems(3) n1 by simp
  have le: "left - tk = length data - (pos + tk)" using Cons.prems(4) by simp
  have pl: "pos + tk \<le> length data" using Cons.prems(4,5) by (auto simp: tk_def BLKSZ_def)
  from Cons.IH [OF g1 ch' r1 le pl cnt'] obtain dk' where
    r: "write_blocks d fc data (length data) ?dk1 cur' (left - tk) (pos + tk) = Some (True, dk')"
       "geom_ok d dk'" "nblocks dk' = nblocks ?dk1"
       "\<forall>j. j \<notin> unat ` set cs \<longrightarrow> sector dk' j = sector ?dk1 j"
       "\<forall>i < length cs. sector dk' (unat (cs ! i)) = chunk data (pos + tk + i * BLKSZ)"
    by blast
  have lt: "(if tk < left then left - tk else 0) = left - tk" by simp
  have wb: "write_blocks d fc data (length data) dk cur left pos = Some (True, dk')"
    using p(1,2) w r(1) blk lt
    by (subst write_blocks.simps)
       (simp add: Let_def tk_def [symmetric] fat_get_def nxt_def [symmetric] cur'_def [symmetric])
  have dist: "c \<notin> set cs" using chain_distinct [OF Cons.prems(2)] by simp
  have cs_ne: "\<And>x. x \<in> set cs \<Longrightarrow> unat x \<noteq> unat c"
    using dist by (metis word_unat_eq_iff)
  have keep: "\<forall>j. j \<notin> unat ` set (c # cs) \<longrightarrow> sector dk' j = sector dk j"
    using r(4) s1 by auto
  have cont: "\<forall>i < length (c # cs). sector dk' (unat ((c # cs) ! i)) = chunk data (pos + i * BLKSZ)"
  proof (intro allI impI)
    fix i assume i: "i < length (c # cs)"
    show "sector dk' (unat ((c # cs) ! i)) = chunk data (pos + i * BLKSZ)"
    proof (cases i)
      case 0
      have "unat c \<notin> unat ` set cs"
      proof
        assume "unat c \<in> unat ` set cs"
        then obtain x where x: "x \<in> set cs" "unat c = unat x" by (rule imageE)
        from cs_ne [OF x(1)] x(2) show False by simp
      qed
      then show ?thesis using r(4) s1 0 by simp
    next
      case (Suc m)
      then have m: "m < length cs" using i by simp
      then have "cs \<noteq> []" by auto
      then have "tk = BLKSZ" using big by simp
      then show ?thesis using r(5) m Suc by (simp add: algebra_simps)
    qed
  qed
  have nb: "nblocks dk' = nblocks dk" using r(3) n1 by simp
  show ?case by (rule exI [of _ dk']) (intro conjI wb r(2) nb keep cont)
qed

lemma read_blocks_ok:
  assumes "geom_ok d dk" and "is_chain (fat_v fc) cur cs"
    and "\<forall>c \<in> set cs. unat c < nblocks dk"
    and "left = length data - pos" and "pos \<le> length data"
    and "length out = length data" and "take pos out = take pos data"
    and "length cs = (left + BLKSZ - 1) div BLKSZ"
    and "\<forall>i < length cs. sector dk (unat (cs ! i)) = chunk data (pos + i * BLKSZ)"
  shows "\<exists>dk'. read_blocks d fc dk cur left pos out = (True, dk', data) \<and> same_img dk dk'"
  using assms
proof (induction cs arbitrary: dk cur left pos out)
  case Nil
  then have "left = 0" by (cases "left = 0") (simp_all add: BLKSZ_def)
  then have "length data \<le> pos" using Nil.prems(4,5) by simp
  then have "out = data" using Nil.prems(6,7) by simp
  moreover have "read_blocks d fc dk cur left pos out = (True, dk, out)"
    using \<open>left = 0\<close> by (subst read_blocks.simps) simp
  ultimately show ?case by simp
next
  case (Cons c cs)
  let ?v = "fat_v fc"
  define tk where "tk = (if left < BLKSZ then left else BLKSZ)"
  have p: "cur = c" "c \<noteq> FAT_EOF" "is_chain ?v (?v ! unat c) cs" using Cons.prems(2) by simp_all
  have cn: "unat c < nblocks dk" using Cons.prems(3) by simp
  note bc = blocks_count [of "length cs" left]
  have cnt: "Suc (length cs) \<le> (left + BLKSZ - 1) div BLKSZ" using Cons.prems(8) by simp
  have cnte: "Suc (length cs) = (left + BLKSZ - 1) div BLKSZ" using Cons.prems(8) by simp
  have l0: "0 < left" using bc(1) [OF cnt] .
  have cnt': "length cs = (left - tk + BLKSZ - 1) div BLKSZ" using blocks_count_eq [OF cnte] by (simp add: tk_def)
  have big: "cs \<noteq> [] \<Longrightarrow> tk = BLKSZ" using bc(3) [OF cnt] by (auto simp: tk_def)
  have sc: "sector dk (unat c) = chunk data pos" using Cons.prems(9) by auto
  let ?dk1 = "rd_disk dk (unat c)"
  have rd: "disk_read_idx d dk c = (Some (chunk data pos), ?dk1)"
    using cn sc by (simp add: disk_read_idx_eq [OF Cons.prems(1)])
  have tkc: "take tk (chunk data pos) = take tk (drop pos data)"
    using chunk_take(2) [OF tk_def Cons.prems(4)] .
  define out1 where "out1 = memcpy out pos (take tk (drop pos data))"
  have tkl: "pos + tk \<le> length data" using Cons.prems(4,5) by (auto simp: tk_def BLKSZ_def)
  have ltk: "length (take tk (drop pos data)) = tk" using tkl by simp
  have lo1: "length out1 = length data"
    unfolding out1_def using Cons.prems(6) tkl ltk by (subst length_memcpy) simp_all
  have to1: "take (pos + tk) out1 = take (pos + tk) data"
  proof -
    have "out1 = (take pos data @ take tk (drop pos data)) @ drop (pos + tk) out"
      using Cons.prems(7) ltk by (simp add: out1_def memcpy_def)
    moreover have "length (take pos data @ take tk (drop pos data)) = pos + tk"
      using Cons.prems(5) ltk by simp
    ultimately have "take (pos + tk) out1 = take pos data @ take tk (drop pos data)" by simp
    then show ?thesis by (simp add: take_add)
  qed
  have g1: "geom_ok d ?dk1" using Cons.prems(1) by (rule same_img_geom [OF same_img_rd])
  have r1: "\<forall>c \<in> set cs. unat c < nblocks ?dk1"
    using Cons.prems(3) by (simp add: same_img_nblocks [OF same_img_rd])
  have le: "left - tk = length data - (pos + tk)" using Cons.prems(4) by simp
  have sec1: "\<forall>i < length cs. sector ?dk1 (unat (cs ! i)) = chunk data (pos + tk + i * BLKSZ)"
  proof (intro allI impI)
    fix i assume i: "i < length cs"
    then have "cs \<noteq> []" by auto
    then have "tk = BLKSZ" using big by simp
    moreover have "sector dk (unat ((c # cs) ! Suc i)) = chunk data (pos + Suc i * BLKSZ)"
      using Cons.prems(9) i by (metis Suc_less_eq length_Cons)
    ultimately show "sector ?dk1 (unat (cs ! i)) = chunk data (pos + tk + i * BLKSZ)"
      by (simp add: same_img_sector [OF same_img_rd] algebra_simps)
  qed
  from Cons.IH [OF g1 p(3) r1 le tkl lo1 to1 cnt' sec1] obtain dk' where
    r: "read_blocks d fc ?dk1 (?v ! unat c) (left - tk) (pos + tk) out1 = (True, dk', data)"
       "same_img ?dk1 dk'"
    by blast
  have "read_blocks d fc dk cur left pos out = (True, dk', data)"
    using p(1,2) l0 rd r(1) tkc
    by (subst read_blocks.simps) (simp add: tk_def [symmetric] fat_get_def out1_def)
  moreover have "same_img dk dk'" using same_img_rd r(2) by (rule same_img_trans)
  ultimately show ?case by blast
qed

lemma blocks_u32:
  shows "unat ((len + of_nat BLKSZ - 1) div of_nat BLKSZ :: u32) \<le> (unat len + BLKSZ - 1) div BLKSZ"
    and "unat len + 127 < 2 ^ 32 \<Longrightarrow>
         unat ((len + of_nat BLKSZ - 1) div of_nat BLKSZ :: u32) = (unat len + BLKSZ - 1) div BLKSZ"
proof -
  have a: "len + of_nat BLKSZ - 1 = len + 127" by (simp add: BLKSZ_def)
  have d: "unat ((len + 127) div 128) = unat (len + 127) div unat (128::u32)" by (rule unat_div)
  have "unat (len + 127) = (unat len + unat (127::u32)) mod 2 ^ 32"
    by (simp add: unat_word_ariths)
  then have "unat (len + 127) \<le> unat len + 127" by simp
  then have "unat (len + 127) div 128 \<le> (unat len + 127) div 128" by (rule div_le_mono)
  then show "unat ((len + of_nat BLKSZ - 1) div of_nat BLKSZ :: u32) \<le> (unat len + BLKSZ - 1) div BLKSZ"
    unfolding a using d by (simp add: BLKSZ_def)
  assume "unat len + 127 < 2 ^ 32"
  then have "unat (len + 127) = unat len + unat (127::u32)" by (intro unat_add_u32) simp
  then show "unat ((len + of_nat BLKSZ - 1) div of_nat BLKSZ :: u32) = (unat len + BLKSZ - 1) div BLKSZ"
    unfolding a using d by (simp add: BLKSZ_def)
qed

lemma free_blocks_mono:
  assumes "\<forall>i < unat (total_blocks L). v ! i = FAT_FREE \<longrightarrow> v' ! i = FAT_FREE"
  shows "length (free_blocks L v) \<le> length (free_blocks L v')"
proof -
  have "set (free_blocks L v) \<subseteq> set (free_blocks L v')" using assms by (auto simp: free_blocks_set)
  then have "card (set (free_blocks L v)) \<le> card (set (free_blocks L v'))" by (intro card_mono) simp_all
  then show ?thesis unfolding free_blocks_card .
qed

lemma lookup_cong:
  assumes "\<forall>i < unat (dir_entries L). named (dir_entry dk' L i) name \<longleftrightarrow> named (dir_entry dk L i) name"
  shows "lookup dk' L name = lookup dk L name"
  unfolding lookup_def using assms by (intro find_cong) auto

lemma dir_entry_name:
  assumes g: "geom_ok d dk" and lo: "layout_ok L dk" and s: "slot < unat (dir_entries L)"
  shows "length (e_name (dir_entry dk L slot)) = 32"
    and "(e_name (dir_entry dk L slot))[31 := 0] = e_name (dir_entry dk L slot)"
proof -
  have nb: "nblocks dk < 2 ^ 32" using g by (simp add: geom_ok_def img_ok_def)
  have "unat (dir_start L) + slot div 2 < nblocks dk" using dir_sector_in_range(2) [OF lo nb s] .
  then have ls: "length (sector dk (unat (dir_start L) + slot div 2)) = BLKSZ"
    using g by (intro sector_length)
  have "slot mod 2 \<le> 1" by simp
  then have "(slot mod 2) * 64 \<le> 64" by simp
  then show "length (e_name (dir_entry dk L slot)) = 32"
    using ls by (simp add: dir_entry_def dirent_unpack_def MAX_NAME_def BLKSZ_def)
  show "(e_name (dir_entry dk L slot))[31 := 0] = e_name (dir_entry dk L slot)"
    by (simp add: dir_entry_def dirent_unpack_def MAX_NAME_def)
qed

lemma data_start_pos:
  assumes g: "geom_ok d dk" and lo: "layout_ok L dk" and s: "slot < unat (dir_entries L)"
  shows "unat (dir_start L + dir_sectors L) = unat (dir_start L) + unat (dir_sectors L)"
    and "unat (dir_start L) + slot div 2 < unat (dir_start L + dir_sectors L)"
proof -
  have nb: "nblocks dk < 2 ^ 32" using g by (simp add: geom_ok_def img_ok_def)
  have "unat (dir_start L) + unat (dir_sectors L) \<le> nblocks dk" using lo by (simp add: layout_ok_def)
  then have "unat (dir_start L) + unat (dir_sectors L) < 2 ^ 32" using nb by linarith
  then show a: "unat (dir_start L + dir_sectors L) = unat (dir_start L) + unat (dir_sectors L)"
    by (rule unat_add_u32)
  have "slot < 2 * unat (dir_sectors L)" using lo s by (simp add: layout_ok_def)
  then have "slot div 2 < unat (dir_sectors L)" by simp
  then show "unat (dir_start L) + slot div 2 < unat (dir_start L + dir_sectors L)"
    unfolding a by simp
qed

lemma write_ok:
  assumes ok: "fs_ok d dk G"
    and f: "lookup dk (G_L G) name = Some slot"
    and ch: "is_chain (fat_v (fat_view d dk G)) (e_first (dir_entry dk (G_L G) slot)) bs"
    and inp: "unat len \<le> length inp"
    and sp: "unat ((len + of_nat BLKSZ - 1) div of_nat BLKSZ)
               \<le> length (free_blocks (G_L G) (fat_v (fat_view d dk G)))"
  shows "\<exists>dk' G' head cs.
       cmd_write d dk G name len inp = Some (0, reply ''0'', drop (unat len) inp, dk', G')
     \<and> fs_ok d dk' G' \<and> G_L G' = G_L G \<and> fat_loaded (G_fat G') \<and> nblocks dk' = nblocks dk
     \<and> dir_entry dk' (G_L G) slot = (dir_entry dk (G_L G) slot)\<lparr>e_length := len, e_first := head\<rparr>
     \<and> (\<forall>i < unat (dir_entries (G_L G)). i \<noteq> slot \<longrightarrow> dir_entry dk' (G_L G) i = dir_entry dk (G_L G) i)
     \<and> is_chain (fat_v (G_fat G')) head cs
     \<and> length cs = unat ((len + of_nat BLKSZ - 1) div of_nat BLKSZ)
     \<and> (\<forall>c \<in> set cs. unat (dir_start (G_L G) + dir_sectors (G_L G)) \<le> unat c \<and> unat c < nblocks dk)
     \<and> (\<forall>i < length cs. sector dk' (unat (cs ! i)) = chunk (take (unat len) inp) (i * BLKSZ))
     \<and> (\<forall>j < nblocks dk. j \<notin> unat ` set cs \<longrightarrow> fat_v (G_fat G') ! j
            = (if j \<in> unat ` set bs then FAT_FREE else fat_v (fat_view d dk G) ! j))"
proof -
  let ?L = "G_L G"
  let ?e = "dir_entry dk ?L slot"
  define fc where "fc = fat_view d dk G"
  define data where "data = take (unat len) inp"
  define k where "k = unat ((len + of_nat BLKSZ - 1) div of_nat BLKSZ)"
  define ds where "ds = dir_start ?L + dir_sectors ?L"
  have g: "geom_ok d dk" and lo: "layout_ok ?L dk" and fm: "G_formatted G"
    using ok by (simp_all add: fs_ok_def)
  have tb: "unat (total_blocks ?L) = nblocks dk" using lo by (simp add: layout_ok_def)
  from fat_view_ok [OF ok] obtain dk1 where
    l: "fat_load d ?L dk (G_fat G) = (True, dk1, fc)" "same_img dk dk1"
       "fat_loaded fc" "length (fat_v fc) = nblocks dk"
    unfolding fc_def by blast
  have g1: "geom_ok d dk1" using l(2) g by (rule same_img_geom)
  have lo1: "layout_ok ?L dk1" using l(2) lo by (rule same_img_layout)
  from dir_find_by_name_eq [OF g1 lo1, of name] obtain dk2 where
    df: "same_img dk1 dk2" "dir_find_by_name d ?L dk1 name =
     ((case lookup dk1 ?L name of None \<Rightarrow> NotFound | Some i \<Rightarrow> Found (i, dir_entry dk1 ?L i)), dk2)"
    by blast
  have lk: "lookup dk1 ?L name = Some slot" using f same_img_lookup [OF l(2)] by simp
  have e1: "dir_entry dk1 ?L slot = ?e" using l(2) by (rule same_img_dir_entry)
  have d2: "dir_find_by_name d ?L dk1 name = (Found (slot, ?e), dk2)" using df(2) lk e1 by simp
  have i2: "same_img dk dk2" using l(2) df(1) by (rule same_img_trans)
  have g2: "geom_ok d dk2" using i2 g by (rule same_img_geom)
  have n2: "nblocks dk2 = nblocks dk" using i2 by (rule same_img_nblocks)
  have sl: "slot < unat (dir_entries ?L)" and nm: "named ?e name" using lookup_Some [OF f] by simp_all
  have used: "e_used ?e \<noteq> 0" using nm by (simp add: named_def)
  note dsp = data_start_pos [OF g lo sl, folded ds_def]
  \<comment> \<open>the old chain is freed in the cache\<close>
  from free_chain_ok [OF ch [folded fc_def]] obtain fc1 where
    fr: "free_chain fc (e_first ?e) = Some fc1" "fat_loaded fc1"
        "length (fat_v fc1) = nblocks dk"
        "\<forall>j < nblocks dk. fat_v fc1 ! j = (if j \<in> unat ` set bs then FAT_FREE else fat_v fc ! j)"
    using l(3,4) by auto
  have fr': "(if e_used ?e \<noteq> 0 \<and> e_first ?e \<noteq> FAT_EOF then free_chain fc (e_first ?e) else Some fc)
              = Some fc1"
  proof (cases "e_first ?e = FAT_EOF")
    case True
    then have "free_chain fc (e_first ?e) = Some fc" by (simp add: free_chain.simps)
    with fr(1) True show ?thesis by simp
  next
    case False
    with fr(1) used show ?thesis by simp
  qed
  \<comment> \<open>the new chain is allocated\<close>
  have "length (free_blocks ?L (fat_v fc)) \<le> length (free_blocks ?L (fat_v fc1))"
    using fr(4) tb by (intro free_blocks_mono) simp
  then have kf: "k \<le> length (free_blocks ?L (fat_v fc1))" using sp unfolding k_def fc_def by simp
  have l1: "length (fat_v fc1) = unat (total_blocks ?L)" using fr(3) tb by simp
  have ds0: "0 < unat (dir_start ?L + dir_sectors ?L)" using dsp(2) unfolding ds_def by simp
  from alloc_blocks_ok [OF l1 kf ds0, of FAT_EOF FAT_EOF] obtain fc2 head last' cs where
    al0: "alloc_blocks ?L (dir_start ?L + dir_sectors ?L) k fc1 FAT_EOF FAT_EOF = (True, fc2, head, last')"
        "length (fat_v fc2) = unat (total_blocks ?L)" "fat_loaded fc2 = fat_loaded fc1" "length cs = k"
        "\<forall>c \<in> set cs. unat (dir_start ?L + dir_sectors ?L) \<le> unat c \<and> unat c < unat (total_blocks ?L)
             \<and> fat_v fc1 ! unat c = FAT_FREE"
        "\<forall>j < unat (total_blocks ?L). j \<notin> unat ` set cs \<and> (FAT_EOF = FAT_EOF \<or> j \<noteq> unat FAT_EOF)
             \<longrightarrow> fat_v fc2 ! j = fat_v fc1 ! j"
        "k = 0 \<longrightarrow> fc2 = fc1 \<and> head = FAT_EOF"
        "k > 0 \<longrightarrow> (if FAT_EOF = FAT_EOF then is_chain (fat_v fc2) head cs
                      else head = FAT_EOF \<and> is_chain (fat_v fc2) FAT_EOF (FAT_EOF # cs))"
    by blast
  have al: "alloc_blocks ?L ds k fc1 FAT_EOF FAT_EOF = (True, fc2, head, last')"
        "length (fat_v fc2) = nblocks dk" "fat_loaded fc2" "length cs = k"
        "\<forall>c \<in> set cs. unat ds \<le> unat c \<and> unat c < nblocks dk"
        "\<forall>j < nblocks dk. j \<notin> unat ` set cs \<longrightarrow> fat_v fc2 ! j = fat_v fc1 ! j"
        "k = 0 \<longrightarrow> fc2 = fc1 \<and> head = FAT_EOF"
        "k > 0 \<longrightarrow> is_chain (fat_v fc2) head cs"
    using al0 fr(2) unfolding ds_def tb by simp_all
  have chain: "is_chain (fat_v fc2) head cs"
  proof (cases "k = 0")
    case True
    with al(4,7) show ?thesis by simp
  next
    case False
    with al(8) show ?thesis by simp
  qed
  \<comment> \<open>the data blocks are written\<close>
  have ld: "length data = unat len" using inp by (simp add: data_def)
  have r2: "\<forall>c \<in> set cs. unat c < nblocks dk2" using al(5) n2 by simp
  have kc: "length cs \<le> (unat len + BLKSZ - 1) div BLKSZ"
    using blocks_u32(1) [of len] al(4) by (simp add: k_def)
  have le0: "unat len = length data - 0" "0 \<le> length data" using ld by simp_all
  from write_blocks_ok [OF g2 chain r2 le0 kc] obtain dk3 where
    wb: "write_blocks d fc2 data (unat len) dk2 head (unat len) 0 = Some (True, dk3)"
        "geom_ok d dk3" "nblocks dk3 = nblocks dk"
        "\<forall>j. j \<notin> unat ` set cs \<longrightarrow> sector dk3 j = sector dk2 j"
        "\<forall>i < length cs. sector dk3 (unat (cs ! i)) = chunk data (i * BLKSZ)"
    using ld n2 by auto
  define e' where "e' = ?e\<lparr>e_length := len, e_first := head\<rparr>"
  have wwf: "write_whole_file d ?L dk2 fc ?e data len = Some (0, dk3, fc2, e')"
  proof (cases "len = 0")
    case True
    then have k0: "k = 0" by (simp add: k_def BLKSZ_def)
    then have h: "fc2 = fc1" "head = FAT_EOF" using al(7) by simp_all
    have "write_blocks d fc2 data (unat len) dk2 head (unat len) 0 = Some (True, dk2)"
      using h by (simp add: write_blocks.simps)
    with wb(1) have "dk3 = dk2" by simp
    then show ?thesis using True fr' h by (simp add: write_whole_file_def e'_def)
  next
    case False
    show ?thesis
      using False fr' al(1) wb(1)
      by (simp add: write_whole_file_def Let_def ds_def [symmetric] k_def [symmetric] e'_def)
  qed
  \<comment> \<open>the FAT is flushed and the directory entry written back\<close>
  have lo3: "layout_ok ?L dk3" using lo wb(3) by (simp add: layout_ok_def)
  from fat_flush_ok [OF wb(2) lo3, of fc2] obtain dk4 where
    fl: "fat_flush d ?L dk3 fc2 = (True, dk4)" "geom_ok d dk4" "nblocks dk4 = nblocks dk3"
        "\<forall>j. unat (dir_start ?L) \<le> j \<longrightarrow> sector dk4 j = sector dk3 j"
    by blast
  have n4: "nblocks dk4 = nblocks dk" using fl(3) wb(3) by simp
  have lo4: "layout_ok ?L dk4" using lo n4 by (simp add: layout_ok_def)
  note en = dir_entry_name [OF g lo sl]
  have ln: "length (e_name e') = 32" using en(1) by (simp add: e'_def)
  from dir_write_entry_eq [OF fl(2) lo4 sl ln] obtain dk5 where
    w: "dir_write_entry d ?L dk4 slot e' = (True, dk5)" "geom_ok d dk5" "nblocks dk5 = nblocks dk4"
       "\<forall>j. j \<noteq> unat (dir_start ?L) + slot div 2 \<longrightarrow> sector dk5 j = sector dk4 j"
       "dir_entry dk5 ?L slot = e'\<lparr>e_name := (e_name e')[31 := 0]\<rparr>"
       "\<forall>i. i \<noteq> slot \<longrightarrow> dir_entry dk5 ?L i = dir_entry dk4 ?L i"
    by blast
  have n5: "nblocks dk5 = nblocks dk" using w(3) n4 by simp
  have lo5: "layout_ok ?L dk5" using lo n5 by (simp add: layout_ok_def)
  have e5: "dir_entry dk5 ?L slot = e'" using w(5) en(2) by (simp add: e'_def)
  define G' where "G' = G\<lparr>G_fat := fc2\<rparr>"
  have np: "\<not> (0 < len \<and> length inp < unat len)" using inp by simp
  have c: "cmd_write d dk G name len inp = Some (0, reply ''0'', drop (unat len) inp, dk5, G')"
    using np fm l(1) d2 wwf fl(1) w(1)
    by (simp add: cmd_write_def Let_def data_def [symmetric] G'_def)
  have fs: "fs_ok d dk5 G'" using w(2) lo5 fm al(2) n5 by (simp add: fs_ok_def G'_def)
  \<comment> \<open>the data sectors and the other directory entries\<close>
  have data_sec: "\<And>c. c \<in> set cs \<Longrightarrow> sector dk5 (unat c) = sector dk3 (unat c)"
  proof -
    fix c assume "c \<in> set cs"
    then have "unat ds \<le> unat c" using al(5) by simp
    then have "unat (dir_start ?L) + slot div 2 < unat c" using dsp(2) by simp
    then show "sector dk5 (unat c) = sector dk3 (unat c)" using w(4) fl(4) by simp
  qed
  have secs: "\<forall>i < length cs. sector dk5 (unat (cs ! i)) = chunk data (i * BLKSZ)"
    using wb(5) data_sec by simp
  have others: "\<forall>i < unat (dir_entries ?L). i \<noteq> slot \<longrightarrow> dir_entry dk5 ?L i = dir_entry dk ?L i"
  proof (intro allI impI)
    fix i assume i: "i < unat (dir_entries ?L)" and ne: "i \<noteq> slot"
    let ?s = "unat (dir_start ?L) + i div 2"
    have a: "?s < unat ds" using data_start_pos(2) [OF g lo i] by (simp add: ds_def)
    have "?s \<notin> unat ` set cs" using al(5) a by fastforce
    then have "sector dk3 ?s = sector dk2 ?s" using wb(4) by simp
    then have "sector dk4 ?s = sector dk ?s" using fl(4) same_img_sector [OF i2] by simp
    then have "dir_entry dk4 ?L i = dir_entry dk ?L i" by (simp add: dir_entry_def)
    with w(6) ne show "dir_entry dk5 ?L i = dir_entry dk ?L i" by simp
  qed
  have fat: "\<forall>j < nblocks dk. j \<notin> unat ` set cs \<longrightarrow> fat_v fc2 ! j
            = (if j \<in> unat ` set bs then FAT_FREE else fat_v fc ! j)"
    using al(6) fr(4) by simp
  have rng: "\<forall>c \<in> set cs. unat (dir_start ?L + dir_sectors ?L) \<le> unat c \<and> unat c < nblocks dk"
    using al(5) by (simp add: ds_def)
  have gl: "G_L G' = G_L G" "fat_loaded (G_fat G')" "fat_v (G_fat G') = fat_v fc2"
    using al(3) by (simp_all add: G'_def)
  show ?thesis
    apply (rule exI [of _ dk5], rule exI [of _ G'], rule exI [of _ head], rule exI [of _ cs])
    unfolding gl(3) fc_def [symmetric] data_def [symmetric] k_def [symmetric]
    using c fs gl(1,2) n5 e5 others chain al(4) rng secs fat
    unfolding e'_def data_def by (intro conjI) assumption+
qed

lemma read_found:
  assumes ok: "fs_ok d dk G" and f: "lookup dk (G_L G) name = Some slot"
  shows "\<exists>dk2. same_img dk dk2 \<and> cmd_read d dk G name junk =
     (case read_whole_file d (G_L G) dk2 (fat_view d dk G) (dir_entry dk (G_L G) slot) junk of
        (None, dk3) \<Rightarrow> (reply ''2 0 '', dk3, G\<lparr>G_fat := fat_view d dk G\<rparr>)
      | (Some buf, dk3) \<Rightarrow>
          (bytes ''0 '' @ dec_nat (unat (e_length (dir_entry dk (G_L G) slot))) @ bytes '' '' @ buf @ [NL],
           dk3, G\<lparr>G_fat := fat_view d dk G\<rparr>))"
proof -
  let ?L = "G_L G"
  let ?e = "dir_entry dk ?L slot"
  have g: "geom_ok d dk" and lo: "layout_ok ?L dk" and fm: "G_formatted G"
    using ok by (simp_all add: fs_ok_def)
  from fat_view_ok [OF ok] obtain dk1 where
    l: "fat_load d ?L dk (G_fat G) = (True, dk1, fat_view d dk G)" "same_img dk dk1"
    by blast
  have g1: "geom_ok d dk1" using l(2) g by (rule same_img_geom)
  have lo1: "layout_ok ?L dk1" using l(2) lo by (rule same_img_layout)
  from dir_find_by_name_eq [OF g1 lo1, of name] obtain dk2 where
    df: "same_img dk1 dk2" "dir_find_by_name d ?L dk1 name =
     ((case lookup dk1 ?L name of None \<Rightarrow> NotFound | Some i \<Rightarrow> Found (i, dir_entry dk1 ?L i)), dk2)"
    by blast
  have lk: "lookup dk1 ?L name = Some slot" using f same_img_lookup [OF l(2)] by simp
  have e1: "dir_entry dk1 ?L slot = ?e" using l(2) by (rule same_img_dir_entry)
  have d2: "dir_find_by_name d ?L dk1 name = (Found (slot, ?e), dk2)" using df(2) lk e1 by simp
  have i2: "same_img dk dk2" using l(2) df(1) by (rule same_img_trans)
  show ?thesis
    using fm l(1) d2 i2 by (intro exI [of _ dk2]) (simp add: cmd_read_def)
qed

lemma read_ok:
  assumes ok: "fs_ok d dk G" and f: "lookup dk (G_L G) name = Some slot"
    and ch: "is_chain (fat_v (fat_view d dk G)) (e_first (dir_entry dk (G_L G) slot)) cs"
    and ln: "unat (e_length (dir_entry dk (G_L G) slot)) = length data"
    and k: "length cs = (length data + BLKSZ - 1) div BLKSZ"
    and secs: "\<forall>i < length cs. sector dk (unat (cs ! i)) = chunk data (i * BLKSZ)"
  shows "fst (cmd_read d dk G name junk) = bytes ''0 '' @ dec_nat (length data) @ bytes '' '' @ data @ [NL]"
proof -
  let ?L = "G_L G"
  let ?e = "dir_entry dk ?L slot"
  let ?fc = "fat_view d dk G"
  have g: "geom_ok d dk" using ok by (simp add: fs_ok_def)
  from fat_view_ok [OF ok] have len: "length (fat_v ?fc) = nblocks dk" by blast
  from read_found [OF ok f, of junk] obtain dk2 where
    r: "same_img dk dk2" "cmd_read d dk G name junk =
     (case read_whole_file d ?L dk2 ?fc ?e junk of
        (None, dk3) \<Rightarrow> (reply ''2 0 '', dk3, G\<lparr>G_fat := ?fc\<rparr>)
      | (Some buf, dk3) \<Rightarrow>
          (bytes ''0 '' @ dec_nat (unat (e_length ?e)) @ bytes '' '' @ buf @ [NL], dk3, G\<lparr>G_fat := ?fc\<rparr>))"
    by blast
  have g2: "geom_ok d dk2" using r(1) g by (rule same_img_geom)
  have r2: "\<forall>c \<in> set cs. unat c < nblocks dk2"
    using chain_in_range [OF ch] len same_img_nblocks [OF r(1)] by simp
  have s2: "\<forall>i < length cs. sector dk2 (unat (cs ! i)) = chunk data (0 + i * BLKSZ)"
    using secs same_img_sector [OF r(1)] by simp
  have a: "length data = length data - 0" "0 \<le> length data"
    "length (map junk [0..<length data]) = length data"
    "take 0 (map junk [0..<length data]) = take 0 data"
    by simp_all
  have k': "length cs = (length data + BLKSZ - 1) div BLKSZ" using k .
  from read_blocks_ok [OF g2 ch r2 a k' s2] obtain dk3 where
    "read_blocks d ?fc dk2 (e_first ?e) (length data) 0 (map junk [0..<length data]) = (True, dk3, data)"
    by blast
  then have "read_whole_file d ?L dk2 ?fc ?e junk = (Some data, dk3)"
    by (simp add: read_whole_file_def ln)
  then show ?thesis using r(2) ln by simp
qed

section \<open>The filesystem service: unique names\<close>

text \<open>
  Formatting leaves a directory without names; a successful create, a delete and a
  write keep the names of the used entries distinct. In such a directory a name that
  is found names one entry only.
\<close>

lemma unique_named:
  assumes "names_unique dk L" and "lookup dk L name = Some slot"
  shows "\<forall>i < unat (dir_entries L). i \<noteq> slot \<longrightarrow> \<not> named (dir_entry dk L i) name"
  using assms(1) lookup_Some [OF assms(2)] unfolding names_unique_def named_def by metis

lemma format_unique:
  assumes "geom_ok d dk" and "unat (dir_start (compute_layout d)) + 32 \<le> nblocks dk"
  shows "names_unique (fst (snd (cmd_format d dk G))) (compute_layout d)"
proof -
  from cmd_format_ok [OF assms, of G] obtain dk' G' where
    r: "cmd_format d dk G = (reply ''0'', dk', G')"
       "\<forall>i < 64. dir_entry dk' (compute_layout d) i = blank"
    by blast
  have "dir_entries (compute_layout d) = 64" using compute_layout_dir [of d] by simp
  then show ?thesis using r by (simp add: names_unique_def blank_def)
qed

lemma create_unique:
  assumes ok: "fs_ok d dk G" and u: "names_unique dk (G_L G)"
    and c: "cmd_create d dk G name = (reply ''0'', dk', G')"
  shows "names_unique dk' (G_L G)"
proof -
  let ?L = "G_L G"
  have "\<not> (strlen name = 0 \<or> MAX_NAME \<le> strlen name)"
  proof
    assume "strlen name = 0 \<or> MAX_NAME \<le> strlen name"
    from create_invalid [OF this, of d dk G] c reply_neq show False by simp
  qed
  then have v: "1 \<le> strlen name" "strlen name < MAX_NAME" by auto
  have f: "lookup dk ?L name = None"
  proof (cases "lookup dk ?L name")
    case (Some i)
    from create_exists [OF ok v Some] c reply_neq show ?thesis by auto
  qed simp
  obtain sl where sl: "find (\<lambda>i. e_used (dir_entry dk ?L i) = 0) [0..<unat (dir_entries ?L)] = Some sl"
  proof (cases "find (\<lambda>i. e_used (dir_entry dk ?L i) = 0) [0..<unat (dir_entries ?L)]")
    case None
    then have "\<forall>i < unat (dir_entries ?L). e_used (dir_entry dk ?L i) \<noteq> 0"
      by (simp add: find_free_None_iff)
    with create_new(1) [OF ok v f] c reply_neq show ?thesis by auto
  qed simp
  from create_new(2) [OF ok v f, of sl] sl c have
    n: "named (dir_entry dk' ?L sl) name"
    and o: "\<forall>i. i \<noteq> sl \<longrightarrow> dir_entry dk' ?L i = dir_entry dk ?L i"
    by auto
  have nn: "\<forall>i < unat (dir_entries ?L). \<not> named (dir_entry dk ?L i) name"
    using f by (simp add: lookup_None_iff)
  show ?thesis unfolding names_unique_def
  proof (intro allI impI, elim conjE)
    fix i j assume i: "i < unat (dir_entries ?L)" and j: "j < unat (dir_entries ?L)"
      and ui: "e_used (dir_entry dk' ?L i) \<noteq> 0" and uj: "e_used (dir_entry dk' ?L j) \<noteq> 0"
      and e: "cstr (e_name (dir_entry dk' ?L i)) = cstr (e_name (dir_entry dk' ?L j))"
    show "i = j"
    proof (cases "i = sl")
      case True
      show ?thesis
      proof (rule ccontr)
        assume "i \<noteq> j"
        then have "dir_entry dk' ?L j = dir_entry dk ?L j" using o True by simp
        moreover have "named (dir_entry dk' ?L j) name" using n True e uj by (simp add: named_def)
        ultimately show False using nn j by simp
      qed
    next
      case False
      show ?thesis
      proof (cases "j = sl")
        case True
        have "dir_entry dk' ?L i = dir_entry dk ?L i" using o False by simp
        moreover have "named (dir_entry dk' ?L i) name" using n True e ui by (simp add: named_def)
        ultimately show ?thesis using nn i by simp
      next
        case F: False
        then show ?thesis using False o u i j ui uj e by (simp add: names_unique_def)
      qed
    qed
  qed
qed

lemma delete_unique:
  assumes ok: "fs_ok d dk G" and u: "names_unique dk (G_L G)"
    and f: "lookup dk (G_L G) name = Some slot"
    and ch: "is_chain (fat_v (fat_view d dk G)) (e_first (dir_entry dk (G_L G) slot)) bs"
  shows "names_unique (fst (snd (the (cmd_delete d dk G name)))) (G_L G)"
proof -
  let ?L = "G_L G"
  from delete_ok [OF ok f ch] obtain dk' G' where
    r: "cmd_delete d dk G name = Some (reply ''0'', dk', G')"
       "dir_entry dk' ?L slot = blank"
       "\<forall>i. i \<noteq> slot \<longrightarrow> dir_entry dk' ?L i = dir_entry dk ?L i"
    by blast
  have "names_unique dk' ?L" unfolding names_unique_def
  proof (intro allI impI, elim conjE)
    fix i j assume i: "i < unat (dir_entries ?L)" and j: "j < unat (dir_entries ?L)"
      and ui: "e_used (dir_entry dk' ?L i) \<noteq> 0" and uj: "e_used (dir_entry dk' ?L j) \<noteq> 0"
      and e: "cstr (e_name (dir_entry dk' ?L i)) = cstr (e_name (dir_entry dk' ?L j))"
    have "i \<noteq> slot" "j \<noteq> slot" using ui uj r(2) by (auto simp: blank_def)
    then show "i = j" using r(3) u i j ui uj e by (simp add: names_unique_def)
  qed
  then show ?thesis using r(1) by simp
qed

lemma write_unique:
  assumes ok: "fs_ok d dk G" and u: "names_unique dk (G_L G)"
    and f: "lookup dk (G_L G) name = Some slot"
    and ch: "is_chain (fat_v (fat_view d dk G)) (e_first (dir_entry dk (G_L G) slot)) bs"
    and inp: "unat len \<le> length inp"
    and sp: "unat ((len + of_nat BLKSZ - 1) div of_nat BLKSZ)
               \<le> length (free_blocks (G_L G) (fat_v (fat_view d dk G)))"
  shows "names_unique (fst (snd (snd (snd (the (cmd_write d dk G name len inp)))))) (G_L G)"
proof -
  let ?L = "G_L G"
  from write_ok [OF ok f ch inp sp] obtain dk' G' head where
    r: "cmd_write d dk G name len inp = Some (0, reply ''0'', drop (unat len) inp, dk', G')"
       "dir_entry dk' ?L slot = (dir_entry dk ?L slot)\<lparr>e_length := len, e_first := head\<rparr>"
       "\<forall>i < unat (dir_entries ?L). i \<noteq> slot \<longrightarrow> dir_entry dk' ?L i = dir_entry dk ?L i"
    by blast
  have s: "\<forall>i < unat (dir_entries ?L). e_used (dir_entry dk' ?L i) = e_used (dir_entry dk ?L i)
             \<and> e_name (dir_entry dk' ?L i) = e_name (dir_entry dk ?L i)"
  proof (intro allI impI)
    fix i assume "i < unat (dir_entries ?L)"
    then show "e_used (dir_entry dk' ?L i) = e_used (dir_entry dk ?L i)
             \<and> e_name (dir_entry dk' ?L i) = e_name (dir_entry dk ?L i)"
      using r(2,3) by (cases "i = slot") simp_all
  qed
  have "names_unique dk' ?L" using u s unfolding names_unique_def by simp
  then show ?thesis using r(1) by simp
qed

section \<open>The filesystem service: a write without space\<close>

lemma alloc_blocks_fail:
  assumes len: "length (fat_v fc) = unat (total_blocks L)"
    and k: "length (free_blocks L (fat_v fc)) < k"
    and a: "0 < unat (dir_start L + dir_sectors L)"
  shows "\<not> fst (alloc_blocks L (dir_start L + dir_sectors L) k fc head prev)"
  using len k
proof (induction k arbitrary: fc head prev)
  case 0
  then show ?case by simp
next
  case (Suc k)
  define N where "N = unat (total_blocks L)"
  define ds where "ds = unat (dir_start L + dir_sectors L)"
  let ?v = "fat_v fc"
  have N32: "N < 2 ^ 32" unfolding N_def using unsigned_less [of "total_blocks L"] by simp
  show ?case
  proof (cases "free_blocks L ?v = []")
    case True
    then show ?thesis by (simp add: find_free_block_None)
  next
    case False
    from find_free_block_Some [OF False] obtain f0 where
      fb: "find_free_block L fc (dir_start L + dir_sectors L) = Some (of_nat f0)"
      and f0: "f0 \<in> set (free_blocks L ?v)"
      by blast
    have f0p: "ds \<le> f0" "f0 < N" "?v ! f0 = FAT_FREE"
      using f0 by (simp_all add: free_blocks_set N_def ds_def)
    define b :: u32 where "b = of_nat f0"
    have ub: "unat b = f0" unfolding b_def using f0p(2) N32 by (intro unat_of_nat_u32) simp
    have bnz: "b \<noteq> FAT_FREE"
    proof
      assume "b = FAT_FREE"
      then have "unat b = 0" by (simp add: FAT_FREE_def)
      with ub f0p(1) a show False by (simp add: ds_def)
    qed
    define fc1 where "fc1 = fat_set fc b FAT_EOF"
    define fc2 where "fc2 = (if prev \<noteq> FAT_EOF then fat_set fc1 prev b else fc1)"
    define head2 where "head2 = (if prev \<noteq> FAT_EOF then head else b)"
    have v2: "fat_v fc2 = (if prev \<noteq> FAT_EOF then (?v[f0 := FAT_EOF])[unat prev := b] else ?v[f0 := FAT_EOF])"
      by (simp_all add: fc2_def fc1_def fat_set_def ub)
    have l2: "length (fat_v fc2) = unat (total_blocks L)" using Suc.prems(1) by (simp add: v2)
    have nth2: "\<And>j. j < N \<Longrightarrow> fat_v fc2 ! j
          = (if prev \<noteq> FAT_EOF \<and> j = unat prev then b else if j = f0 then FAT_EOF else ?v ! j)"
      using Suc.prems(1) by (auto simp: v2 N_def nth_list_update)
    have fs2: "set (free_blocks L (fat_v fc2)) \<subseteq> set (free_blocks L ?v) - {f0}"
    proof -
      have "\<And>j. j < N \<Longrightarrow> fat_v fc2 ! j = FAT_FREE \<Longrightarrow> ?v ! j = FAT_FREE \<and> j \<noteq> f0"
        using nth2 bnz by (auto simp: N_def split: if_splits)
      then show ?thesis unfolding free_blocks_set N_def [symmetric] by auto
    qed
    have k2: "length (free_blocks L (fat_v fc2)) < k"
    proof -
      have "card (set (free_blocks L (fat_v fc2))) \<le> card (set (free_blocks L ?v) - {f0})"
        using fs2 by (intro card_mono) simp_all
      also have "\<dots> = card (set (free_blocks L ?v)) - 1" using f0 by simp
      finally have "length (free_blocks L (fat_v fc2)) \<le> length (free_blocks L ?v) - 1"
        unfolding free_blocks_card .
      moreover have "0 < length (free_blocks L ?v)" using False by simp
      ultimately show ?thesis using Suc.prems(2) by linarith
    qed
    from Suc.IH [OF l2 k2, of head2 b]
    have "\<not> fst (alloc_blocks L (dir_start L + dir_sectors L) k fc2 head2 b)" .
    then show ?thesis
      using fb by (simp add: Let_def b_def [symmetric] fc1_def [symmetric] fc2_def [symmetric] head2_def [symmetric])
  qed
qed

lemma free_chain_count:
  assumes "\<forall>j < unat (total_blocks L). v' ! j = (if j \<in> unat ` set bs then FAT_FREE else v ! j)"
  shows "length (free_blocks L v') \<le> length (free_blocks L v) + length bs"
proof -
  have "set (free_blocks L v') \<subseteq> set (free_blocks L v) \<union> unat ` set bs"
    using assms by (auto simp: free_blocks_set split: if_splits)
  then have "card (set (free_blocks L v')) \<le> card (set (free_blocks L v) \<union> unat ` set bs)"
    by (intro card_mono) simp_all
  also have "\<dots> \<le> card (set (free_blocks L v)) + card (unat ` set bs)" by (rule card_Un_le)
  also have "card (unat ` set bs) \<le> card (set bs)" by (intro card_image_le) simp
  also have "card (set bs) \<le> length bs" by (rule card_length)
  finally show ?thesis unfolding free_blocks_card by simp
qed

text \<open>
  Claim C3, what the code does. When the free blocks, the blocks of the old chain
  included, are fewer than the blocks that the write needs, write replies \<open>"2\n"\<close> and
  returns before it flushes the FAT or writes the directory entry back: the image of the
  disk is the one before the write, so the persisted directory entry keeps its old
  length and first block and the persisted FAT keeps the old chain.
\<close>

theorem write_no_space:
  assumes ok: "fs_ok d dk G"
    and f: "lookup dk (G_L G) name = Some slot"
    and ch: "is_chain (fat_v (fat_view d dk G)) (e_first (dir_entry dk (G_L G) slot)) bs"
    and inp: "unat len \<le> length inp"
    and ns: "length (free_blocks (G_L G) (fat_v (fat_view d dk G))) + length bs
               < unat ((len + of_nat BLKSZ - 1) div of_nat BLKSZ)"
  shows "\<exists>dk' G'. cmd_write d dk G name len inp = Some (0, reply ''2'', drop (unat len) inp, dk', G')
     \<and> same_img dk dk'
     \<and> dir_entry dk' (G_L G) slot = dir_entry dk (G_L G) slot"
proof -
  let ?L = "G_L G"
  let ?e = "dir_entry dk ?L slot"
  define fc where "fc = fat_view d dk G"
  define data where "data = take (unat len) inp"
  define k where "k = unat ((len + of_nat BLKSZ - 1) div of_nat BLKSZ)"
  define ds where "ds = dir_start ?L + dir_sectors ?L"
  have g: "geom_ok d dk" and lo: "layout_ok ?L dk" and fm: "G_formatted G"
    using ok by (simp_all add: fs_ok_def)
  have tb: "unat (total_blocks ?L) = nblocks dk" using lo by (simp add: layout_ok_def)
  from fat_view_ok [OF ok] obtain dk1 where
    l: "fat_load d ?L dk (G_fat G) = (True, dk1, fc)" "same_img dk dk1"
       "fat_loaded fc" "length (fat_v fc) = nblocks dk"
    unfolding fc_def by blast
  have g1: "geom_ok d dk1" using l(2) g by (rule same_img_geom)
  have lo1: "layout_ok ?L dk1" using l(2) lo by (rule same_img_layout)
  from dir_find_by_name_eq [OF g1 lo1, of name] obtain dk2 where
    df: "same_img dk1 dk2" "dir_find_by_name d ?L dk1 name =
     ((case lookup dk1 ?L name of None \<Rightarrow> NotFound | Some i \<Rightarrow> Found (i, dir_entry dk1 ?L i)), dk2)"
    by blast
  have lk: "lookup dk1 ?L name = Some slot" using f same_img_lookup [OF l(2)] by simp
  have e1: "dir_entry dk1 ?L slot = ?e" using l(2) by (rule same_img_dir_entry)
  have d2: "dir_find_by_name d ?L dk1 name = (Found (slot, ?e), dk2)" using df(2) lk e1 by simp
  have i2: "same_img dk dk2" using l(2) df(1) by (rule same_img_trans)
  have sl: "slot < unat (dir_entries ?L)" and nm: "named ?e name" using lookup_Some [OF f] by simp_all
  have used: "e_used ?e \<noteq> 0" using nm by (simp add: named_def)
  note dsp = data_start_pos [OF g lo sl, folded ds_def]
  from free_chain_ok [OF ch [folded fc_def]] obtain fc1 where
    fr: "free_chain fc (e_first ?e) = Some fc1" "fat_loaded fc1"
        "length (fat_v fc1) = nblocks dk"
        "\<forall>j < nblocks dk. fat_v fc1 ! j = (if j \<in> unat ` set bs then FAT_FREE else fat_v fc ! j)"
    using l(3,4) by auto
  have fr': "(if e_used ?e \<noteq> 0 \<and> e_first ?e \<noteq> FAT_EOF then free_chain fc (e_first ?e) else Some fc)
              = Some fc1"
  proof (cases "e_first ?e = FAT_EOF")
    case True
    then have "free_chain fc (e_first ?e) = Some fc" by (simp add: free_chain.simps)
    with fr(1) True show ?thesis by simp
  next
    case False
    with fr(1) used show ?thesis by simp
  qed
  have "length (free_blocks ?L (fat_v fc1)) \<le> length (free_blocks ?L (fat_v fc)) + length bs"
    using fr(4) tb by (intro free_chain_count) simp
  then have kf: "length (free_blocks ?L (fat_v fc1)) < k" using ns unfolding k_def fc_def by simp
  have l1: "length (fat_v fc1) = unat (total_blocks ?L)" using fr(3) tb by simp
  have ds0: "0 < unat (dir_start ?L + dir_sectors ?L)" using dsp(2) unfolding ds_def by simp
  have "\<not> fst (alloc_blocks ?L ds k fc1 FAT_EOF FAT_EOF)"
    unfolding ds_def using l1 kf ds0 by (rule alloc_blocks_fail)
  then obtain fc2 head last' where
    al: "alloc_blocks ?L ds k fc1 FAT_EOF FAT_EOF = (False, fc2, head, last')"
    by (cases "alloc_blocks ?L ds k fc1 FAT_EOF FAT_EOF") auto
  have k0: "k \<noteq> 0" using kf by simp
  then have l0: "len \<noteq> 0" by (auto simp: k_def BLKSZ_def)
  have wwf: "write_whole_file d ?L dk2 fc ?e data len
      = Some (- 2, dk2, fc2, ?e\<lparr>e_first := FAT_EOF, e_length := len\<rparr>)"
    using l0 fr' al
    by (simp add: write_whole_file_def Let_def ds_def [symmetric] k_def [symmetric])
  have np: "\<not> (0 < len \<and> length inp < unat len)" using inp by simp
  have c: "cmd_write d dk G name len inp
      = Some (0, reply ''2'', drop (unat len) inp, dk2, G\<lparr>G_fat := fc2\<rparr>)"
    using np fm l(1) d2 wwf
    by (simp add: cmd_write_def Let_def data_def [symmetric])
  have "dir_entry dk2 ?L slot = ?e" using i2 by (rule same_img_dir_entry)
  with c i2 show ?thesis by blast
qed

section \<open>The filesystem service: the round trip of write and read\<close>

text \<open>
  Claim C1, within the bound that keeps the block count in 32 bits. On a formatted
  filesystem, for a name that names a used directory entry whose chain can be walked
  to the end marker, and data that fits into the free blocks, with
  \<open>len(d) + 127 < 2^32\<close>: the write of \<open>d\<close> replies \<open>"0\n"\<close> and consumes exactly \<open>d\<close>, and
  the read that follows replies \<open>"0 <len(d)> "\<close>, the bytes \<open>d\<close> and a newline.
\<close>

theorem write_read_round_trip:
  assumes ok: "fs_ok d dk G"
    and f: "lookup dk (G_L G) name = Some slot"
    and ch: "is_chain (fat_v (fat_view d dk G)) (e_first (dir_entry dk (G_L G) slot)) bs"
    and sp: "length data \<le> length (free_blocks (G_L G) (fat_v (fat_view d dk G))) * BLKSZ"
    and nov: "length data + 127 < 2 ^ 32"
  shows "\<exists>dk' G'. cmd_write d dk G name (of_nat (length data)) (data @ rest)
            = Some (0, reply ''0'', rest, dk', G')
     \<and> fst (cmd_read d dk' G' name junk)
          = bytes ''0 '' @ dec_nat (length data) @ bytes '' '' @ data @ [NL]"
proof -
  let ?L = "G_L G"
  let ?e = "dir_entry dk ?L slot"
  define len :: u32 where "len = of_nat (length data)"
  have ul: "unat len = length data" unfolding len_def using nov by (intro unat_of_nat_u32) simp
  have k: "unat ((len + of_nat BLKSZ - 1) div of_nat BLKSZ) = (length data + BLKSZ - 1) div BLKSZ"
    using blocks_u32(2) [of len] nov ul by simp
  have "(length data + BLKSZ - 1) div BLKSZ \<le> length (free_blocks ?L (fat_v (fat_view d dk G)))"
  proof -
    define F where "F = length (free_blocks ?L (fat_v (fat_view d dk G)))"
    have "length data \<le> F * 128" using sp by (simp add: F_def BLKSZ_def)
    then have "(length data + 127) div 128 \<le> F" by linarith
    then show ?thesis by (simp add: F_def BLKSZ_def)
  qed
  then have sp': "unat ((len + of_nat BLKSZ - 1) div of_nat BLKSZ)
               \<le> length (free_blocks ?L (fat_v (fat_view d dk G)))"
    using k by simp
  have inp: "unat len \<le> length (data @ rest)" using ul by simp
  from write_ok [OF ok f ch inp sp'] obtain dk' G' head cs where
    w: "cmd_write d dk G name len (data @ rest) = Some (0, reply ''0'', drop (unat len) (data @ rest), dk', G')"
       "fs_ok d dk' G'" "G_L G' = ?L" "fat_loaded (G_fat G')"
       "dir_entry dk' ?L slot = ?e\<lparr>e_length := len, e_first := head\<rparr>"
       "\<forall>i < unat (dir_entries ?L). i \<noteq> slot \<longrightarrow> dir_entry dk' ?L i = dir_entry dk ?L i"
       "is_chain (fat_v (G_fat G')) head cs"
       "length cs = unat ((len + of_nat BLKSZ - 1) div of_nat BLKSZ)"
       "\<forall>i < length cs. sector dk' (unat (cs ! i)) = chunk (take (unat len) (data @ rest)) (i * BLKSZ)"
    by blast
  have "\<forall>i < unat (dir_entries ?L). named (dir_entry dk' ?L i) name \<longleftrightarrow> named (dir_entry dk ?L i) name"
  proof (intro allI impI)
    fix i assume i: "i < unat (dir_entries ?L)"
    show "named (dir_entry dk' ?L i) name \<longleftrightarrow> named (dir_entry dk ?L i) name"
    proof (cases "i = slot")
      case True
      then show ?thesis using w(5) by (simp add: named_def)
    next
      case False
      with w(6) i show ?thesis by simp
    qed
  qed
  then have "lookup dk' ?L name = lookup dk ?L name" by (rule lookup_cong)
  then have f': "lookup dk' (G_L G') name = Some slot" using f w(3) by simp
  from fat_view_ok [OF w(2)] w(4) have fv: "fat_view d dk' G' = G_fat G'" by blast
  have ch': "is_chain (fat_v (fat_view d dk' G')) (e_first (dir_entry dk' (G_L G') slot)) cs"
    using w(7) by (simp add: fv w(3) w(5))
  have ln': "unat (e_length (dir_entry dk' (G_L G') slot)) = length data"
    using ul by (simp add: w(3) w(5))
  have k': "length cs = (length data + BLKSZ - 1) div BLKSZ" using w(8) k by simp
  have secs: "\<forall>i < length cs. sector dk' (unat (cs ! i)) = chunk data (i * BLKSZ)"
    using w(9) ul by simp
  from read_ok [OF w(2) f' ch' ln' k' secs, of junk]
  have "fst (cmd_read d dk' G' name junk)
          = bytes ''0 '' @ dec_nat (length data) @ bytes '' '' @ data @ [NL]" .
  moreover have "cmd_write d dk G name (of_nat (length data)) (data @ rest)
            = Some (0, reply ''0'', rest, dk', G')"
    using w(1) ul by (simp add: len_def)
  ultimately show ?thesis by blast
qed

section \<open>The filesystem service: examples\<close>

lemma find_first: "0 < n \<Longrightarrow> P 0 \<Longrightarrow> find P [0..<n] = Some 0"
  by (simp add: upt_conv_Cons)

lemma ex_data_start:
  "unat (dir_start (compute_layout ex_d) + dir_sectors (compute_layout ex_d)) = 35"
  "unat (total_blocks (compute_layout ex_d)) = 36"
  "unat (dir_entries (compute_layout ex_d)) = 64"
  by (simp_all add: compute_layout_def total_blocks_of_def Let_def BLKSZ_def ex_d_def)

lemma strlen_foo: "strlen (bytes ''foo'') = 3"
  by (simp add: strlen_def cstr_def bytes_def ascii_def)

lemma ex_created_ok:
  "fs_ok ex_d (fst (snd ex_created)) (snd (snd ex_created))"
  "G_L (snd (snd ex_created)) = compute_layout ex_d"
  "fat_loaded (G_fat (snd (snd ex_created)))"
  "nblocks (fst (snd ex_created)) = 36"
  "\<forall>j < 36. fat_v (G_fat (snd (snd ex_created))) ! j = (if j < 35 then FAT_RESERVED else FAT_FREE)"
  "e_first (dir_entry (fst (snd ex_created)) (compute_layout ex_d) 0) = FAT_EOF"
  "lookup (fst (snd ex_created)) (compute_layout ex_d) (bytes ''foo'') = Some 0"
  "\<forall>i < 64. i \<noteq> 0 \<longrightarrow> dir_entry (fst (snd ex_created)) (compute_layout ex_d) i = blank"
proof -
  let ?dk = "fst (snd ex_formatted)"
  let ?G = "snd (snd ex_formatted)"
  let ?L = "compute_layout ex_d"
  note fo = ex_formatted_ok
  have v: "1 \<le> strlen (bytes ''foo'')" "strlen (bytes ''foo'') < MAX_NAME"
    by (simp_all add: strlen_foo MAX_NAME_def)
  have a: "lookup ?dk (G_L ?G) (bytes ''foo'') = None"
    unfolding lookup_None_iff using fo(3,7) ex_layout not_named_blank by simp
  have "e_used (dir_entry ?dk (G_L ?G) 0) = 0" using fo(3,7) by (simp add: blank_def)
  then have b: "find (\<lambda>i. e_used (dir_entry ?dk (G_L ?G) i) = 0) [0..<unat (dir_entries (G_L ?G))] = Some 0"
    using fo(3) ex_data_start(3) by (intro find_first) simp_all
  from create_new(2) [OF fo(2) v a, of 0] b obtain dk' G' where
    c: "cmd_create ex_d ?dk ?G (bytes ''foo'') = (reply ''0'', dk', G')" "fs_ok ex_d dk' G'"
       "G_L G' = G_L ?G" "fat_loaded (G_fat G')" "fat_loaded (G_fat ?G) \<longrightarrow> G_fat G' = G_fat ?G"
       "nblocks dk' = nblocks ?dk"
       "dir_entry dk' (G_L ?G) 0 = \<lparr>e_name = cstr (bytes ''foo'') @ replicate (32 - strlen (bytes ''foo'')) 0,
                    e_length = 0, e_first = FAT_EOF, e_used = 1\<rparr>"
       "named (dir_entry dk' (G_L ?G) 0) (bytes ''foo'')"
       "\<forall>i. i \<noteq> 0 \<longrightarrow> dir_entry dk' (G_L ?G) i = dir_entry ?dk (G_L ?G) i"
    by blast
  have p: "fst (snd ex_created) = dk'" "snd (snd ex_created) = G'"
    by (simp_all add: ex_created_def c(1))
  have gf: "G_fat G' = G_fat ?G" using c(5) fo(4) by simp
  show "fs_ok ex_d (fst (snd ex_created)) (snd (snd ex_created))" unfolding p by (rule c(2))
  show "G_L (snd (snd ex_created)) = ?L" unfolding p using c(3) fo(3) by simp
  show "fat_loaded (G_fat (snd (snd ex_created)))" unfolding p by (rule c(4))
  show "nblocks (fst (snd ex_created)) = 36" unfolding p using c(6) fo(5) by simp
  show "\<forall>j < 36. fat_v (G_fat (snd (snd ex_created))) ! j = (if j < 35 then FAT_RESERVED else FAT_FREE)"
    unfolding p gf by (rule fo(6))
  show "e_first (dir_entry (fst (snd ex_created)) ?L 0) = FAT_EOF"
    unfolding p using c(7) fo(3) by simp
  have "named (dir_entry dk' ?L 0) (bytes ''foo'')" using c(8) fo(3) by simp
  then show "lookup (fst (snd ex_created)) ?L (bytes ''foo'') = Some 0"
    unfolding p lookup_def ex_data_start(3) by (intro find_first) simp_all
  show "\<forall>i < 64. i \<noteq> 0 \<longrightarrow> dir_entry (fst (snd ex_created)) ?L i = blank"
    unfolding p using c(9) fo(3,7) by simp
qed

lemma ex_created_free:
  "fat_view ex_d (fst (snd ex_created)) (snd (snd ex_created)) = G_fat (snd (snd ex_created))"
  "free_blocks (compute_layout ex_d) (fat_v (G_fat (snd (snd ex_created)))) = [35]"
proof -
  from fat_view_ok [OF ex_created_ok(1)] ex_created_ok(3)
  show "fat_view ex_d (fst (snd ex_created)) (snd (snd ex_created)) = G_fat (snd (snd ex_created))"
    by blast
  have "fat_v (G_fat (snd (snd ex_created))) ! 35 = FAT_FREE" using ex_created_ok(5) by simp
  then show "free_blocks (compute_layout ex_d) (fat_v (G_fat (snd (snd ex_created)))) = [35]"
    by (simp add: free_blocks_def ex_data_start upt_conv_Cons)
qed

lemma hello: "length (bytes ''HELLO'') = 5" "unat (5 :: u32) = 5"
  "unat ((5 + of_nat BLKSZ - 1) div of_nat BLKSZ :: u32) = 1"
  by (simp_all add: bytes_def BLKSZ_def)

lemma ex_written_ok:
  "fs_ok ex_d (fst ex_written) (snd ex_written)"
  "G_L (snd ex_written) = compute_layout ex_d"
  "fat_view ex_d (fst ex_written) (snd ex_written) = G_fat (snd ex_written)"
  "lookup (fst ex_written) (compute_layout ex_d) (bytes ''foo'') = Some 0"
  "e_first (dir_entry (fst ex_written) (compute_layout ex_d) 0) = 35"
  "e_length (dir_entry (fst ex_written) (compute_layout ex_d) 0) = 5"
  "is_chain (fat_v (G_fat (snd ex_written))) 35 [35]"
  "free_blocks (compute_layout ex_d) (fat_v (G_fat (snd ex_written))) = []"
  "\<forall>i < 64. i \<noteq> 0 \<longrightarrow> \<not> named (dir_entry (fst ex_written) (compute_layout ex_d) i) (bytes ''foo'')"
proof -
  let ?dk = "fst (snd ex_created)"
  let ?G = "snd (snd ex_created)"
  let ?L = "compute_layout ex_d"
  note co = ex_created_ok
  have f: "lookup ?dk (G_L ?G) (bytes ''foo'') = Some 0" using co(2,7) by simp
  have ch: "is_chain (fat_v (fat_view ex_d ?dk ?G)) (e_first (dir_entry ?dk (G_L ?G) 0)) []"
    using co(2,6) by simp
  have inp: "unat (5 :: u32) \<le> length (bytes ''HELLO'')" by (simp add: hello)
  have sp: "unat ((5 + of_nat BLKSZ - 1) div of_nat BLKSZ :: u32)
               \<le> length (free_blocks (G_L ?G) (fat_v (fat_view ex_d ?dk ?G)))"
    unfolding hello(3) ex_created_free(1) co(2) ex_created_free(2) by simp
  from write_ok [OF co(1) f ch inp sp] obtain dk' G' head cs where
    w: "cmd_write ex_d ?dk ?G (bytes ''foo'') 5 (bytes ''HELLO'')
          = Some (0, reply ''0'', drop (unat (5 :: u32)) (bytes ''HELLO''), dk', G')"
       "fs_ok ex_d dk' G'" "G_L G' = G_L ?G" "fat_loaded (G_fat G')"
       "dir_entry dk' (G_L ?G) 0 = (dir_entry ?dk (G_L ?G) 0)\<lparr>e_length := 5, e_first := head\<rparr>"
       "\<forall>i < unat (dir_entries (G_L ?G)). i \<noteq> 0 \<longrightarrow> dir_entry dk' (G_L ?G) i = dir_entry ?dk (G_L ?G) i"
       "is_chain (fat_v (G_fat G')) head cs"
       "length cs = unat ((5 + of_nat BLKSZ - 1) div of_nat BLKSZ :: u32)"
       "\<forall>c \<in> set cs. unat (dir_start (G_L ?G) + dir_sectors (G_L ?G)) \<le> unat c \<and> unat c < nblocks ?dk"
    by blast
  have p: "fst ex_written = dk'" "snd ex_written = G'" by (simp_all add: ex_written_def w(1))
  obtain c where cs: "cs = [c]" using w(8) unfolding hello(3) by (cases cs) auto
  have "35 \<le> unat c \<and> unat c < 36" using w(9) co(2,4) ex_data_start(1) by (simp add: cs)
  then have "unat c = unat (35 :: u32)" by simp
  then have c35: "c = 35" by (simp only: word_unat_eq_iff)
  have hd: "head = 35" using w(7) by (simp add: cs c35)
  have v35: "fat_v (G_fat G') ! 35 = FAT_EOF" using w(7) by (simp add: cs c35)
  have ent: "\<forall>i < 64. i \<noteq> 0 \<longrightarrow> dir_entry dk' ?L i = blank"
    using w(6) co(2,8) ex_data_start(3) by simp
  show "fs_ok ex_d (fst ex_written) (snd ex_written)" unfolding p by (rule w(2))
  show "G_L (snd ex_written) = ?L" unfolding p using w(3) co(2) by simp
  from fat_view_ok [OF w(2)] w(4)
  show "fat_view ex_d (fst ex_written) (snd ex_written) = G_fat (snd ex_written)" unfolding p by blast
  have "named (dir_entry dk' ?L 0) (bytes ''foo'')"
    using lookup_Some [OF co(7)] w(5) co(2) by (simp add: named_def)
  then show "lookup (fst ex_written) ?L (bytes ''foo'') = Some 0"
    unfolding p lookup_def ex_data_start(3) by (intro find_first) simp_all
  show "e_first (dir_entry (fst ex_written) ?L 0) = 35" unfolding p using w(5) co(2) hd by simp
  show "e_length (dir_entry (fst ex_written) ?L 0) = 5" unfolding p using w(5) co(2) by simp
  show "is_chain (fat_v (G_fat (snd ex_written))) 35 [35]" unfolding p using w(7) by (simp add: cs c35 hd)
  show "free_blocks ?L (fat_v (G_fat (snd ex_written))) = []"
    unfolding p using v35 by (simp add: free_blocks_def ex_data_start upt_conv_Cons)
  show "\<forall>i < 64. i \<noteq> 0 \<longrightarrow> \<not> named (dir_entry (fst ex_written) ?L i) (bytes ''foo'')"
    unfolding p using ent not_named_blank by simp
qed

theorem write_read_round_trip_witness:
  "fs_ok ex_d (fst (snd ex_created)) (snd (snd ex_created))
   \<and> lookup (fst (snd ex_created)) (G_L (snd (snd ex_created))) (bytes ''foo'') = Some 0
   \<and> length (bytes ''HELLO'')
        \<le> length (free_blocks (G_L (snd (snd ex_created)))
                    (fat_v (fat_view ex_d (fst (snd ex_created)) (snd (snd ex_created))))) * BLKSZ
   \<and> (\<exists>dk' G'. cmd_write ex_d (fst (snd ex_created)) (snd (snd ex_created)) (bytes ''foo'') 5
                  (bytes ''HELLO'') = Some (0, reply ''0'', [], dk', G')
          \<and> fst (cmd_read ex_d dk' G' (bytes ''foo'') (\<lambda>i. 0)) = bytes ''0 5 HELLO'' @ [NL])"
proof -
  let ?dk = "fst (snd ex_created)"
  let ?G = "snd (snd ex_created)"
  note co = ex_created_ok
  have f: "lookup ?dk (G_L ?G) (bytes ''foo'') = Some 0" using co(2,7) by simp
  have ch: "is_chain (fat_v (fat_view ex_d ?dk ?G)) (e_first (dir_entry ?dk (G_L ?G) 0)) []"
    using co(2,6) by simp
  have sp: "length (bytes ''HELLO'')
        \<le> length (free_blocks (G_L ?G) (fat_v (fat_view ex_d ?dk ?G))) * BLKSZ"
    unfolding ex_created_free(1) co(2) ex_created_free(2) by (simp add: hello BLKSZ_def)
  have nov: "length (bytes ''HELLO'') + 127 < 2 ^ 32" by (simp add: hello)
  have r: "bytes ''0 '' @ dec_nat (length (bytes ''HELLO'')) @ bytes '' '' @ bytes ''HELLO'' @ [NL]
           = bytes ''0 5 HELLO'' @ [NL]"
    by (simp add: hello bytes_def ascii_def)
  from write_read_round_trip [OF co(1) f ch sp nov, of "[]" "\<lambda>i. 0", unfolded r] co(1) f sp
  show ?thesis by (simp add: hello)
qed

lemma created_state:
  assumes g: "geom_ok d dk" and big: "unat (dir_start (compute_layout d)) + 32 \<le> nblocks dk"
    and F: "cmd_format d dk G0 = (rep, dkf, Gf)"
    and C: "cmd_create d dkf Gf (bytes ''foo'') = (rep', dkc, Gc)"
  shows "fs_ok d dkc Gc" "G_L Gc = compute_layout d" "fat_view d dkc Gc = G_fat Gc"
    "nblocks dkc = nblocks dk"
    "\<forall>j < nblocks dk. fat_v (G_fat Gc) ! j
           = (if j < unat (dir_start (compute_layout d)) + 32 then FAT_RESERVED else FAT_FREE)"
    "e_first (dir_entry dkc (compute_layout d) 0) = FAT_EOF"
    "lookup dkc (compute_layout d) (bytes ''foo'') = Some 0"
proof -
  let ?L = "compute_layout d"
  from cmd_format_ok [OF g big, of G0] F have
    fo: "fs_ok d dkf Gf" "G_L Gf = ?L" "fat_loaded (G_fat Gf)"
      "\<forall>j < nblocks dkf. fat_v (G_fat Gf) ! j
           = (if j < unat (dir_start ?L) + 32 then FAT_RESERVED else FAT_FREE)"
      "\<forall>i < 64. dir_entry dkf ?L i = blank"
    by auto
  have nf: "nblocks dkf = nblocks dk"
    using fo(1,2) unat_total_blocks_geom [OF g] compute_layout_dir(6) [of d]
    by (simp add: fs_ok_def layout_ok_def)
  have de: "unat (dir_entries ?L) = 64" by (simp add: compute_layout_dir(5))
  have v: "1 \<le> strlen (bytes ''foo'')" "strlen (bytes ''foo'') < MAX_NAME"
    by (simp_all add: strlen_foo MAX_NAME_def)
  have a: "lookup dkf (G_L Gf) (bytes ''foo'') = None"
    unfolding lookup_None_iff fo(2) de using fo(5) not_named_blank by simp
  have "e_used (dir_entry dkf (G_L Gf) 0) = 0" using fo(2,5) by (simp add: blank_def)
  then have b: "find (\<lambda>i. e_used (dir_entry dkf (G_L Gf) i) = 0) [0..<unat (dir_entries (G_L Gf))] = Some 0"
    unfolding fo(2) de by (intro find_first) (simp_all add: fo(2))
  from create_new(2) [OF fo(1) v a, of 0] b C have
    c: "fs_ok d dkc Gc" "G_L Gc = G_L Gf" "fat_loaded (G_fat Gc)"
       "fat_loaded (G_fat Gf) \<longrightarrow> G_fat Gc = G_fat Gf"
       "nblocks dkc = nblocks dkf"
       "dir_entry dkc (G_L Gf) 0 = \<lparr>e_name = cstr (bytes ''foo'') @ replicate (32 - strlen (bytes ''foo'')) 0,
                    e_length = 0, e_first = FAT_EOF, e_used = 1\<rparr>"
       "named (dir_entry dkc (G_L Gf) 0) (bytes ''foo'')"
    by auto
  have gf: "G_fat Gc = G_fat Gf" using c(4) fo(3) by simp
  show "fs_ok d dkc Gc" by (rule c(1))
  show "G_L Gc = ?L" using c(2) fo(2) by simp
  from fat_view_ok [OF c(1)] c(3) show "fat_view d dkc Gc = G_fat Gc" by blast
  show "nblocks dkc = nblocks dk" using c(5) nf by simp
  show "\<forall>j < nblocks dk. fat_v (G_fat Gc) ! j
           = (if j < unat (dir_start ?L) + 32 then FAT_RESERVED else FAT_FREE)"
    unfolding gf using fo(4) nf by simp
  show "e_first (dir_entry dkc ?L 0) = FAT_EOF" using c(6) fo(2) by simp
  have "named (dir_entry dkc ?L 0) (bytes ''foo'')" using c(7) fo(2) by simp
  then show "lookup dkc ?L (bytes ''foo'') = Some 0"
    unfolding lookup_def de by (intro find_first) simp_all
qed

lemma big_geom: "geom_ok big_d big_disk" "nblocks big_disk = 67108864"
proof -
  have "nat 8192 * nat 8192 * BLKSZ < 2 ^ 63" by (simp add: BLKSZ_def)
  from disk_main_eq [of 8192 8192 1000 "[]"] this
  have e: "disk_main 8192 8192 1000 [] = Some \<lparr>g_cyl = 8192, g_sec = 8192, g_track_us = 1000,
            g_base = take (nat 8192 * nat 8192 * BLKSZ) [] @ replicate (nat 8192 * nat 8192 * BLKSZ - length []) 0,
            g_head_cyl = 0, g_log = [], g_unread = []\<rparr>"
    by simp
  have m: "disk_main 8192 8192 1000 [] = Some big_disk"
    unfolding big_disk_def by (subst e, subst e) (simp only: option.sel)
  then show "geom_ok big_d big_disk" by (rule disk_main_geom) (simp_all add: big_d_def)
  have "g_cyl big_disk = 8192" "g_sec big_disk = 8192" using disk_main_ok [OF m] by simp_all
  then show "nblocks big_disk = 67108864" by (simp add: nblocks_def)
qed

lemma big_layout:
  "unat (dir_start (compute_layout big_d)) = 2097153"
  "unat (dir_start (compute_layout big_d) + dir_sectors (compute_layout big_d)) = 2097185"
  "unat (total_blocks (compute_layout big_d)) = 67108864"
proof -
  have a: "0 \<le> d_cyl big_d * d_sec big_d" "d_cyl big_d * d_sec big_d * 4 + 127 < 2 ^ 32"
    by (simp_all add: big_d_def)
  from compute_layout_fields(4) [OF a] show "unat (dir_start (compute_layout big_d)) = 2097153"
    by (simp add: big_d_def)
  from compute_layout_fields(7) [OF a]
  show "unat (dir_start (compute_layout big_d) + dir_sectors (compute_layout big_d)) = 2097185"
    by (simp add: big_d_def)
  from compute_layout_fields(1) [OF a] show "unat (total_blocks (compute_layout big_d)) = 67108864"
    by (simp add: big_d_def)
qed

lemma big_created_ok:
  "fs_ok big_d (fst (snd big_created)) (snd (snd big_created))"
  "G_L (snd (snd big_created)) = compute_layout big_d"
  "fat_view big_d (fst (snd big_created)) (snd (snd big_created)) = G_fat (snd (snd big_created))"
  "e_first (dir_entry (fst (snd big_created)) (compute_layout big_d) 0) = FAT_EOF"
  "lookup (fst (snd big_created)) (compute_layout big_d) (bytes ''foo'') = Some 0"
  "length (free_blocks (compute_layout big_d) (fat_v (G_fat (snd (snd big_created))))) = 65011679"
proof -
  obtain rep dkf Gf where F: "cmd_format big_d big_disk (fs_main (compute_layout big_d)) = (rep, dkf, Gf)"
    by (cases "cmd_format big_d big_disk (fs_main (compute_layout big_d))") auto
  obtain rep' dkc Gc where C: "cmd_create big_d dkf Gf (bytes ''foo'') = (rep', dkc, Gc)"
    by (cases "cmd_create big_d dkf Gf (bytes ''foo'')") auto
  have p: "fst (snd big_created) = dkc" "snd (snd big_created) = Gc"
    by (simp_all add: big_created_def F C)
  have big: "unat (dir_start (compute_layout big_d)) + 32 \<le> nblocks big_disk"
    by (simp add: big_layout big_geom)
  note cs = created_state [OF big_geom(1) big F C]
  show "fs_ok big_d (fst (snd big_created)) (snd (snd big_created))" unfolding p by (rule cs(1))
  show "G_L (snd (snd big_created)) = compute_layout big_d" unfolding p by (rule cs(2))
  show "fat_view big_d (fst (snd big_created)) (snd (snd big_created)) = G_fat (snd (snd big_created))"
    unfolding p by (rule cs(3))
  show "e_first (dir_entry (fst (snd big_created)) (compute_layout big_d) 0) = FAT_EOF"
    unfolding p by (rule cs(6))
  show "lookup (fst (snd big_created)) (compute_layout big_d) (bytes ''foo'') = Some 0"
    unfolding p by (rule cs(7))
  define v where "v = fat_v (G_fat Gc)"
  define a :: nat where "a = 2097185"
  define b :: nat where "b = 67108864"
  have ab: "unat (dir_start (compute_layout big_d)) + 32 = a" "nblocks big_disk = b"
    by (simp_all add: big_layout(1) big_geom(2) a_def b_def)
  have fr: "\<forall>j < b. v ! j = (if j < a then FAT_RESERVED else FAT_FREE)"
    using cs(5) unfolding ab v_def .
  have "\<forall>j \<in> set [a..<b]. v ! j = FAT_FREE" using fr by simp
  then have "filter (\<lambda>i. v ! i = FAT_FREE) [a..<b] = [a..<b]" by (simp only: filter_True)
  then have "length (filter (\<lambda>i. v ! i = FAT_FREE) [a..<b]) = b - a" by simp
  moreover have "free_blocks (compute_layout big_d) v = filter (\<lambda>i. v ! i = FAT_FREE) [a..<b]"
    by (simp only: free_blocks_def big_layout a_def b_def)
  ultimately have "length (free_blocks (compute_layout big_d) v) = b - a" by (simp only:)
  moreover have "b - a = 65011679" by (simp add: a_def b_def)
  ultimately show "length (free_blocks (compute_layout big_d) (fat_v (G_fat (snd (snd big_created))))) = 65011679"
    unfolding p v_def by (simp only:)
qed

lemma big_data_facts: "length big_data = 4294967295" "big_data ! 0 = 65"
  by (simp_all add: big_data_def)

lemma read_blocks_EOF: "read_blocks d fc dk FAT_EOF left pos out = (True, dk, out)"
  by (subst read_blocks.simps) simp

text \<open>
  Claim C1 as stated fails when \<open>len(d) + 127\<close> does not fit into 32 bits. On a disk of
  8192 cylinders with 8192 sectors, formatted, with the file \<open>foo\<close> created, the free
  blocks hold more than \<open>2^32 - 1\<close> bytes. The write of \<open>2^32 - 1\<close> bytes replies \<open>"0\n"\<close>:
  the block count \<open>(len + 127) / 128\<close> wraps around to 0, no block is allocated and no
  data is written. The read that follows replies with the length and the content of
  its fresh buffer, which is not the data written.
\<close>

theorem write_read_overflow:
  "fs_ok big_d (fst (snd big_created)) (snd (snd big_created))
   \<and> lookup (fst (snd big_created)) (G_L (snd (snd big_created))) (bytes ''foo'') = Some 0
   \<and> length big_data
        \<le> length (free_blocks (G_L (snd (snd big_created)))
                    (fat_v (fat_view big_d (fst (snd big_created)) (snd (snd big_created))))) * BLKSZ
   \<and> (\<exists>dk' G'. cmd_write big_d (fst (snd big_created)) (snd (snd big_created)) (bytes ''foo'')
                  (of_nat (length big_data)) big_data = Some (0, reply ''0'', [], dk', G')
          \<and> fst (cmd_read big_d dk' G' (bytes ''foo'') (\<lambda>i. 0))
              = bytes ''0 '' @ dec_nat (length big_data) @ bytes '' ''
                  @ map (\<lambda>i. 0) [0..<length big_data] @ [NL]
          \<and> fst (cmd_read big_d dk' G' (bytes ''foo'') (\<lambda>i. 0))
              \<noteq> bytes ''0 '' @ dec_nat (length big_data) @ bytes '' '' @ big_data @ [NL])"
proof -
  let ?dk = "fst (snd big_created)"
  let ?G = "snd (snd big_created)"
  let ?L = "compute_layout big_d"
  note co = big_created_ok
  define n where "n = length big_data"
  define len :: u32 where "len = of_nat n"
  have n: "n = 4294967295" by (simp add: n_def big_data_facts)
  have ul: "unat len = n" unfolding len_def using n by (intro unat_of_nat_u32) simp
  have lm: "len = - 1" unfolding len_def n by simp
  have k: "unat ((len + of_nat BLKSZ - 1) div of_nat BLKSZ) = 0"
    unfolding lm by (simp add: BLKSZ_def)
  have f: "lookup ?dk (G_L ?G) (bytes ''foo'') = Some 0" using co(2,5) by simp
  have ch: "is_chain (fat_v (fat_view big_d ?dk ?G)) (e_first (dir_entry ?dk (G_L ?G) 0)) []"
    using co(2,4) by simp
  have inp: "unat len \<le> length big_data" using ul by (simp add: n_def)
  have sp: "unat ((len + of_nat BLKSZ - 1) div of_nat BLKSZ)
               \<le> length (free_blocks (G_L ?G) (fat_v (fat_view big_d ?dk ?G)))"
    unfolding k by simp
  have room: "length big_data
        \<le> length (free_blocks (G_L ?G) (fat_v (fat_view big_d ?dk ?G))) * BLKSZ"
    unfolding co(2) co(3) co(6) by (simp add: big_data_facts BLKSZ_def)
  from write_ok [OF co(1) f ch inp sp] obtain dk' G' head cs where
    w: "cmd_write big_d ?dk ?G (bytes ''foo'') len big_data
          = Some (0, reply ''0'', drop (unat len) big_data, dk', G')"
       "fs_ok big_d dk' G'" "G_L G' = G_L ?G" "fat_loaded (G_fat G')"
       "dir_entry dk' (G_L ?G) 0 = (dir_entry ?dk (G_L ?G) 0)\<lparr>e_length := len, e_first := head\<rparr>"
       "is_chain (fat_v (G_fat G')) head cs"
       "length cs = unat ((len + of_nat BLKSZ - 1) div of_nat BLKSZ)"
    by blast
  have "cs = []" using w(7) k by simp
  then have hd: "head = FAT_EOF" using w(6) by simp
  let ?e = "dir_entry dk' (G_L G') 0"
  have e: "e_first ?e = FAT_EOF" "unat (e_length ?e) = n" using w(5) hd ul by (simp_all add: w(3))
  have "named (dir_entry dk' (G_L ?G) 0) (bytes ''foo'')"
    using lookup_Some [OF f] w(5) by (simp add: named_def)
  then have f': "lookup dk' (G_L G') (bytes ''foo'') = Some 0"
    unfolding w(3) co(2) lookup_def compute_layout_dir(5) by (intro find_first) simp_all
  from read_found [OF w(2) f', of "\<lambda>i. 0"] obtain dk2 where
    r: "cmd_read big_d dk' G' (bytes ''foo'') (\<lambda>i. 0) =
     (case read_whole_file big_d (G_L G') dk2 (fat_view big_d dk' G') ?e (\<lambda>i. 0) of
        (None, dk3) \<Rightarrow> (reply ''2 0 '', dk3, G'\<lparr>G_fat := fat_view big_d dk' G'\<rparr>)
      | (Some buf, dk3) \<Rightarrow>
          (bytes ''0 '' @ dec_nat (unat (e_length ?e)) @ bytes '' '' @ buf @ [NL],
           dk3, G'\<lparr>G_fat := fat_view big_d dk' G'\<rparr>))"
    by blast
  have "read_whole_file big_d (G_L G') dk2 (fat_view big_d dk' G') ?e (\<lambda>i. 0)
          = (Some (map (\<lambda>i. 0) [0..<n]), dk2)"
    unfolding read_whole_file_def e read_blocks_EOF by simp
  then have rd: "fst (cmd_read big_d dk' G' (bytes ''foo'') (\<lambda>i. 0))
      = bytes ''0 '' @ dec_nat n @ bytes '' '' @ map (\<lambda>i. 0) [0..<n] @ [NL]"
    unfolding r e by simp
  have ne: "map (\<lambda>i. 0 :: byte) [0..<n] \<noteq> big_data"
  proof
    assume "map (\<lambda>i. 0 :: byte) [0..<n] = big_data"
    then have "map (\<lambda>i. 0 :: byte) [0..<n] ! 0 = big_data ! 0" by simp
    moreover have "0 < n" unfolding n by simp
    ultimately show False by (simp add: big_data_facts(2) del: upt_Suc)
  qed
  have dr: "drop (unat len) big_data = []" using ul by (simp add: n_def)
  have wr: "cmd_write big_d ?dk ?G (bytes ''foo'') (of_nat (length big_data)) big_data
              = Some (0, reply ''0'', [], dk', G')"
    using w(1) [unfolded dr] unfolding len_def n_def .
  have rd': "fst (cmd_read big_d dk' G' (bytes ''foo'') (\<lambda>i. 0))
              \<noteq> bytes ''0 '' @ dec_nat n @ bytes '' '' @ big_data @ [NL]"
    unfolding rd using ne by simp
  show ?thesis
    apply (intro conjI co(1) f room)
    apply (rule exI [of _ dk'], rule exI [of _ G'])
    using wr rd rd' unfolding n_def by (intro conjI) assumption+
qed

theorem delete_frees_chain_witness:
  "fs_ok ex_d (fst ex_written) (snd ex_written)
   \<and> lookup (fst ex_written) (G_L (snd ex_written)) (bytes ''foo'') = Some 0
   \<and> is_chain (fat_v (fat_view ex_d (fst ex_written) (snd ex_written)))
        (e_first (dir_entry (fst ex_written) (G_L (snd ex_written)) 0)) [35]
   \<and> (\<exists>dk' G'. cmd_delete ex_d (fst ex_written) (snd ex_written) (bytes ''foo'')
                  = Some (reply ''0'', dk', G')
          \<and> fat_v (G_fat G') ! 35 = FAT_FREE
          \<and> take 64 (sector dk' 3) = replicate 64 0
          \<and> fst (cmd_read ex_d dk' G' (bytes ''foo'') (\<lambda>i. 0)) = reply ''1 0 '')"
proof -
  let ?dk = "fst ex_written"
  let ?G = "snd ex_written"
  note wo = ex_written_ok
  have f: "lookup ?dk (G_L ?G) (bytes ''foo'') = Some 0" using wo(2,4) by simp
  have u: "\<forall>i < unat (dir_entries (G_L ?G)). i \<noteq> 0 \<longrightarrow>
         \<not> named (dir_entry ?dk (G_L ?G) i) (bytes ''foo'')"
    using wo(9) unfolding wo(2) ex_data_start(3) .
  have ch: "is_chain (fat_v (fat_view ex_d ?dk ?G)) (e_first (dir_entry ?dk (G_L ?G) 0)) [35]"
    unfolding wo(2) wo(3) wo(5) by (rule wo(7))
  from delete_frees_chain [OF wo(1) f u ch, of "\<lambda>i. 0"] wo(1) f ch
  show ?thesis by (simp add: wo(2) ex_layout(1))
qed

theorem write_no_space_witness:
  "fs_ok ex_d (fst ex_written) (snd ex_written)
   \<and> lookup (fst ex_written) (G_L (snd ex_written)) (bytes ''foo'') = Some 0
   \<and> is_chain (fat_v (fat_view ex_d (fst ex_written) (snd ex_written)))
        (e_first (dir_entry (fst ex_written) (G_L (snd ex_written)) 0)) [35]
   \<and> length (free_blocks (G_L (snd ex_written))
               (fat_v (fat_view ex_d (fst ex_written) (snd ex_written)))) = 0
   \<and> unat ((200 + of_nat BLKSZ - 1) div of_nat BLKSZ :: u32) = 2
   \<and> (\<exists>dk' G'. cmd_write ex_d (fst ex_written) (snd ex_written) (bytes ''foo'') 200
                  (replicate 200 65) = Some (0, reply ''2'', [], dk', G')
          \<and> same_img (fst ex_written) dk'
          \<and> e_length (dir_entry dk' (G_L (snd ex_written)) 0) = 5
          \<and> e_first (dir_entry dk' (G_L (snd ex_written)) 0) = 35)"
proof -
  let ?dk = "fst ex_written"
  let ?G = "snd ex_written"
  note wo = ex_written_ok
  have f: "lookup ?dk (G_L ?G) (bytes ''foo'') = Some 0" using wo(2,4) by simp
  have ch: "is_chain (fat_v (fat_view ex_d ?dk ?G)) (e_first (dir_entry ?dk (G_L ?G) 0)) [35]"
    unfolding wo(2) wo(3) wo(5) by (rule wo(7))
  have fr: "length (free_blocks (G_L ?G) (fat_v (fat_view ex_d ?dk ?G))) = 0"
    unfolding wo(2) wo(3) wo(8) by simp
  have k: "unat ((200 + of_nat BLKSZ - 1) div of_nat BLKSZ :: u32) = 2" by (simp add: BLKSZ_def)
  have inp: "unat (200 :: u32) \<le> length (replicate 200 (65 :: byte))" by simp
  have ns: "length (free_blocks (G_L ?G) (fat_v (fat_view ex_d ?dk ?G))) + length [35 :: u32]
               < unat ((200 + of_nat BLKSZ - 1) div of_nat BLKSZ :: u32)"
    unfolding fr k by simp
  from write_no_space [OF wo(1) f ch inp ns] obtain dk' G' where
    r: "cmd_write ex_d ?dk ?G (bytes ''foo'') 200 (replicate 200 65)
          = Some (0, reply ''2'', drop (unat (200 :: u32)) (replicate 200 65), dk', G')"
       "same_img ?dk dk'" "dir_entry dk' (G_L ?G) 0 = dir_entry ?dk (G_L ?G) 0"
    by blast
  have "e_length (dir_entry dk' (G_L ?G) 0) = 5" using r(3) wo(2,6) by simp
  moreover have "e_first (dir_entry dk' (G_L ?G) 0) = 35" using r(3) wo(2,5) by simp
  moreover have "cmd_write ex_d ?dk ?G (bytes ''foo'') 200 (replicate 200 65)
          = Some (0, reply ''2'', [], dk', G')"
    using r(1) by simp
  ultimately show ?thesis using wo(1) f ch fr k r(2) by blast
qed

end
